theory Spec2Isabelle
  imports Complex_Main "HOL-Library.AList" "HOL-Library.Multiset" "HOL-Library.Log_Nat"
begin

section \<open>The host: child processes, exceptions, the interpreter's exit status\<close>

text \<open>
  Both scripts are sequential Python programs whose only inputs are what the host answers:
  whether a tool is on the path, whether a directory exists, and what each child process
  started by \<^verbatim>\<open>subprocess.run\<close> does. The model makes these answers explicit.

  A call of a Python function either returns a value, leaves through \<^verbatim>\<open>sys.exit(n)\<close>,
  leaves through an exception, or never comes back (a child without time limit that never
  ends).
\<close>

datatype exn = OSError | TimeoutExpired | CalledProcessError | OverflowError | ZeroDivisionError

datatype 'a py = Return 'a | SysExit int | Raise exn | Diverge

subsection \<open>Python floats\<close>

text \<open>
  A Python \<^verbatim>\<open>float\<close> is an IEEE 754 binary64 number: a finite value, an infinity or a
  NaN. \<open>Finite x\<close> stands for the double of value \<open>x\<close>; the sign of a zero is not kept
  (the scripts never divide by a float and only print the value).

  \<open>round_b64\<close> rounds a real to the nearest double, ties to the even significand, with
  the exponent unbounded above: the doubles are the multiples of \<open>2 ^ s / 2 ^ 1074\<close>
  in each binade, where \<open>s = 0\<close> for the subnormal numbers and the first normal binade
  and the significand has 53 bits otherwise. \<open>float_result\<close> is the result of an
  arithmetic operation whose exact value is \<open>x\<close>: a rounded value of magnitude \<open>2 ^ 1024\<close>
  or more is an infinity.
\<close>

datatype pyfloat = Finite real | PosInf | NegInf | NaN

definition round_half_even :: "real \<Rightarrow> int" where
  "round_half_even y =
     (let f = \<lfloor>y\<rfloor>; r = y - of_int f
      in if r < 1 / 2 then f else if 1 / 2 < r then f + 1 else if even f then f else f + 1)"

definition round_b64 :: "real \<Rightarrow> real" where
  "round_b64 x =
     (let y = \<bar>x\<bar> * 2 ^ 1074; s = nat (bitlen \<lfloor>y\<rfloor> - 53)
      in sgn x * (of_int (round_half_even (y / 2 ^ s)) * 2 ^ s / 2 ^ 1074))"

definition float_result :: "real \<Rightarrow> pyfloat" where
  "float_result x =
     (let r = round_b64 x
      in if 2 ^ 1024 \<le> r then PosInf else if r \<le> - (2 ^ 1024) then NegInf else Finite r)"

text \<open>\<^verbatim>\<open>x + y\<close> on two floats.\<close>

fun float_add :: "pyfloat \<Rightarrow> pyfloat \<Rightarrow> pyfloat" where
  "float_add (Finite a) (Finite b) = float_result (a + b)"
| "float_add NaN y = NaN"
| "float_add x NaN = NaN"
| "float_add PosInf NegInf = NaN"
| "float_add NegInf PosInf = NaN"
| "float_add PosInf y = PosInf"
| "float_add x PosInf = PosInf"
| "float_add NegInf y = NegInf"
| "float_add x NegInf = NegInf"

text \<open>
  \<^verbatim>\<open>float(k)\<close> for an integer \<open>k\<close>, as the arithmetic operators convert an \<^verbatim>\<open>int\<close> operand:
  the nearest double, or \<^verbatim>\<open>OverflowError\<close> when that is not finite.
\<close>

definition float_of_int :: "int \<Rightarrow> exn + real" where
  "float_of_int k =
     (let r = round_b64 (of_int k) in if 2 ^ 1024 \<le> \<bar>r\<bar> then Inl OverflowError else Inr r)"

text \<open>
  \<^verbatim>\<open>x / k\<close> for a float \<open>x\<close> and an integer \<open>k\<close>: the integer is converted, a zero divisor
  raises \<^verbatim>\<open>ZeroDivisionError\<close>, and the quotient is rounded.
\<close>

definition float_truediv_int :: "pyfloat \<Rightarrow> int \<Rightarrow> exn + pyfloat" where
  "float_truediv_int x k =
     (case float_of_int k of
        Inl e \<Rightarrow> Inl e
      | Inr b \<Rightarrow>
          if b = 0 then Inl ZeroDivisionError
          else Inr (case x of
                      Finite a \<Rightarrow> float_result (a / b)
                    | PosInf \<Rightarrow> if 0 < b then PosInf else NegInf
                    | NegInf \<Rightarrow> if 0 < b then NegInf else PosInf
                    | NaN \<Rightarrow> NaN))"

subsection \<open>Child processes\<close>

text \<open>
  What the child of one \<^verbatim>\<open>subprocess.run\<close> call does, relative to the time limit of that
  call. \<open>Exits rc d out_held err_held\<close> ends on its own, inside the limit when there is one,
  with status \<open>rc\<close>; \<open>d\<close> is the difference of the two \<^verbatim>\<open>time.time()\<close> readings the caller
  takes around the call; \<open>out_held\<close> and \<open>err_held\<close> say whether a descendant of the child
  keeps the child's standard output, respectively standard error, open beyond the limit
  (for ever when there is no limit). \<open>Hangs\<close> does not end inside the limit (with no
  limit: never). \<open>NoSpawn\<close> cannot be started (file not found, no permission: Python
  raises a subclass of \<^verbatim>\<open>OSError\<close>).
\<close>

datatype child = Exits int pyfloat bool bool | Hangs | NoSpawn

text \<open>Where a standard stream of the child goes: nowhere special, to the null device, or
  into a pipe that the caller reads to its end.\<close>

datatype redirect = Inherit | DEVNULL | PIPE

record invocation =
  argv :: "string list"
  child_env :: "(string \<times> string) list"
  timeout :: "int option"
  check :: bool
  stdout_to :: redirect
  stderr_to :: redirect

text \<open>
  Of the standard output the model keeps the items that tell outcomes apart: the progress
  mark of each stress trial and the lines of the trace driver. Banners, colours and the
  layout of the final table are left out.
\<close>

datatype out_item =
    Mark char
  | Line_preparing
  | Line_compile_error
  | Line_generating
  | Line_running int string
  | Line_timeout int
  | Line_exec_error int
  | Line_done

text \<open>
  The state of the orchestrating process: every \<^verbatim>\<open>subprocess.run\<close> call made so far, in
  order; \<^verbatim>\<open>os.environ\<close>, a dictionary kept as an association list; what was printed; and
  the calls (by their position in \<open>calls\<close>) whose child was still running at the limit and
  was killed.
\<close>

record world =
  calls :: "invocation list"
  environ :: "(string \<times> string) list"
  stdout :: "out_item list"
  killed :: "nat list"

record host =
  make_found :: bool
  outdir_exists :: bool
  makedirs_ok :: bool

definition print :: "out_item \<Rightarrow> world \<Rightarrow> world" where
  "print x w = w\<lparr>stdout := stdout w @ [x]\<rparr>"

text \<open>
  \<^verbatim>\<open>subprocess.run(argv, env=..., timeout=..., check=..., stdout=..., stderr=...)\<close>, by the
  documentation and the source of the library. An \<^verbatim>\<open>OSError\<close> when the child cannot be
  started. The call comes back when the child has ended and every pipe it was given has
  reached its end; when the limit passes first the library kills the child, waits for it
  and raises \<^verbatim>\<open>TimeoutExpired\<close> (a child that has already ended is not signalled, and its
  descendants never are). \<^verbatim>\<open>CalledProcessError\<close> for a nonzero status under
  \<^verbatim>\<open>check=True\<close>; otherwise the completed process, of which the callers read the return
  code. The oracle \<open>orc\<close> gives the behaviour of the child of the k-th call of the run.
\<close>

definition waits_for_pipe :: "invocation \<Rightarrow> bool \<Rightarrow> bool \<Rightarrow> bool" where
  "waits_for_pipe iv out_held err_held \<longleftrightarrow>
     (stdout_to iv = PIPE \<and> out_held) \<or> (stderr_to iv = PIPE \<and> err_held)"

definition subprocess_run ::
  "(nat \<Rightarrow> child) \<Rightarrow> invocation \<Rightarrow> world \<Rightarrow> (int \<times> pyfloat) py \<times> world" where
  "subprocess_run orc iv w =
     (let k = length (calls w); w' = w\<lparr>calls := calls w @ [iv]\<rparr> in
      case orc k of
        NoSpawn \<Rightarrow> (Raise OSError, w')
      | Hangs \<Rightarrow>
          (if timeout iv = None then (Diverge, w')
           else (Raise TimeoutExpired, w'\<lparr>killed := killed w @ [k]\<rparr>))
      | Exits rc d out_held err_held \<Rightarrow>
          (if waits_for_pipe iv out_held err_held
           then (if timeout iv = None then Diverge else Raise TimeoutExpired, w')
           else (if check iv \<and> rc \<noteq> 0 then Raise CalledProcessError else Return (rc, d), w')))"

definition bind_py ::
  "'a py \<times> world \<Rightarrow> ('a \<Rightarrow> world \<Rightarrow> 'b py \<times> world) \<Rightarrow> 'b py \<times> world" where
  "bind_py m f =
     (case m of
        (Return x, w) \<Rightarrow> f x w
      | (SysExit n, w) \<Rightarrow> (SysExit n, w)
      | (Raise e, w) \<Rightarrow> (Raise e, w)
      | (Diverge, w) \<Rightarrow> (Diverge, w))"

text \<open>
  The exit status of the interpreter running a script whose top level ended this way: 0
  after a normal end, \<open>n\<close> after \<^verbatim>\<open>sys.exit(n)\<close>, 1 after an uncaught exception, none
  when the script never ends.
\<close>

fun exit_status :: "'a py \<Rightarrow> int option" where
  "exit_status (Return x) = Some 0"
| "exit_status (SysExit n) = Some n"
| "exit_status (Raise e) = Some 1"
| "exit_status Diverge = None"

subsection \<open>\<^verbatim>\<open>str\<close> of an integer, \<^verbatim>\<open>os.path.join\<close> on POSIX\<close>

function str_nat :: "nat \<Rightarrow> string" where
  "str_nat n =
     (if n < 10 then [''0123456789'' ! n]
      else str_nat (n div 10) @ [''0123456789'' ! (n mod 10)])"
  by pat_completeness auto
termination
  by (relation "measure id") auto

declare str_nat.simps [simp del]

definition str :: "int \<Rightarrow> string" where
  "str i = (if i < 0 then CHR ''-'' # str_nat (nat (- i)) else str_nat (nat i))"

definition os_path_join :: "string \<Rightarrow> string \<Rightarrow> string" where
  "os_path_join a b =
     (if b \<noteq> [] \<and> hd b = CHR ''/'' then b
      else if a = [] \<or> last a = CHR ''/'' then a @ b
      else a @ ''/'' @ b)"

section \<open>The stress tester\<close>

definition BINARY_NAME :: string where
  "BINARY_NAME = ''./dining_hall''"

definition TIMEOUT_SECONDS :: int where
  "TIMEOUT_SECONDS = 5"

definition NUM_RUNS :: nat where
  "NUM_RUNS = 30"

text \<open>
  An entry of \<^verbatim>\<open>SCENARIOS\<close>. The labels are only printed; their accented letters are
  written without the accent here.
\<close>

record Scenario =
  scenario_users :: int
  scenario_label :: string

definition SCENARIOS :: "Scenario list" where
  "SCENARIOS =
     [\<lparr>scenario_users = 2, scenario_label = ''Par (Minimal Check)''\<rparr>,
      \<lparr>scenario_users = 3, scenario_label = ''Impar (Edge Case - Sobra 1?)''\<rparr>,
      \<lparr>scenario_users = 10, scenario_label = ''Grupo Pequeno (Concorrencia Padrao)''\<rparr>,
      \<lparr>scenario_users = 50, scenario_label = ''Carga Alta (Stress Test)''\<rparr>]"

text \<open>
  The four local variables of one scenario's trial loop: \<^verbatim>\<open>success_count\<close>,
  \<^verbatim>\<open>fail_count\<close>, \<^verbatim>\<open>deadlocks\<close> (here \<open>deadlock_count\<close>) and \<^verbatim>\<open>avg_time\<close>, which holds
  the running sum of the durations until the division (here \<open>time_sum\<close>). The sum starts
  as the integer 0, which the first addition converts to the float of the same value.
\<close>

record trial_acc =
  success_count :: int
  fail_count :: int
  deadlock_count :: int
  time_sum :: pyfloat

definition acc0 :: trial_acc where
  "acc0 = \<lparr>success_count = 0, fail_count = 0, deadlock_count = 0, time_sum = Finite 0\<rparr>"

text \<open>
  The dictionary appended to \<^verbatim>\<open>summary\<close>, with its five keys. Without a success
  \<^verbatim>\<open>avg_time\<close> is the integer 0, kept here as the float of the same value.
\<close>

record ScenarioStatistics =
  users :: int
  success :: int
  fails :: int
  deadlocks :: int
  avg_time :: pyfloat

text \<open>
  The invocation of one stress trial (lines 81 to 86): the binary with the degree as its
  only argument, the inherited environment, the time limit, no \<^verbatim>\<open>check\<close>, the standard
  output to the null device and the standard error into a pipe.
\<close>

definition trial_invocation :: "int \<Rightarrow> int \<Rightarrow> world \<Rightarrow> invocation" where
  "trial_invocation tmo u w =
     \<lparr>argv = [BINARY_NAME, str u], child_env = environ w, timeout = Some tmo, check = False,
      stdout_to = DEVNULL, stderr_to = PIPE\<rparr>"

text \<open>
  The body of the trial loop (lines 78 to 102 of \<^verbatim>\<open>stress_tester.py\<close>). The duration is
  read from the clock in the branch of status 0 only. Only \<^verbatim>\<open>TimeoutExpired\<close> is caught;
  any other exception leaves the loop, the function and the script.
\<close>

definition trial ::
  "(nat \<Rightarrow> child) \<Rightarrow> int \<Rightarrow> int \<Rightarrow> trial_acc \<Rightarrow> world \<Rightarrow> trial_acc py \<times> world" where
  "trial orc tmo u acc w =
     (case subprocess_run orc (trial_invocation tmo u w) w of
        (Return (returncode, elapsed), w') \<Rightarrow>
          (if returncode = 0
           then (Return (acc\<lparr>success_count := success_count acc + 1,
                            time_sum := float_add (time_sum acc) elapsed\<rparr>),
                 print (Mark CHR ''.'') w')
           else (Return (acc\<lparr>fail_count := fail_count acc + 1\<rparr>), print (Mark CHR ''E'') w'))
      | (Raise e, w') \<Rightarrow>
          (if e = TimeoutExpired
           then (Return (acc\<lparr>deadlock_count := deadlock_count acc + 1\<rparr>),
                 print (Mark CHR ''D'') w')
           else (Raise e, w'))
      | (SysExit n, w') \<Rightarrow> (SysExit n, w')
      | (Diverge, w') \<Rightarrow> (Diverge, w'))"

text \<open>\<^verbatim>\<open>for i in range(NUM_RUNS)\<close>: the body, \<open>n\<close> times.\<close>

fun trials ::
  "(nat \<Rightarrow> child) \<Rightarrow> int \<Rightarrow> int \<Rightarrow> nat \<Rightarrow> trial_acc \<Rightarrow> world \<Rightarrow> trial_acc py \<times> world" where
  "trials orc tmo u 0 acc w = (Return acc, w)"
| "trials orc tmo u (Suc n) acc w = bind_py (trial orc tmo u acc w) (trials orc tmo u n)"

text \<open>
  The division after the loop (line 105): a float divided by an integer, which can raise
  when the integer has no finite double. The dictionary built from the counters and the
  quotient (lines 108 to 114).
\<close>

definition final_avg :: "trial_acc \<Rightarrow> exn + pyfloat" where
  "final_avg acc =
     (if success_count acc > 0 then float_truediv_int (time_sum acc) (success_count acc)
      else Inr (Finite 0))"

definition statistics :: "int \<Rightarrow> trial_acc \<Rightarrow> pyfloat \<Rightarrow> ScenarioStatistics" where
  "statistics u acc a =
     \<lparr>users = u, success = success_count acc, fails = fail_count acc,
      deadlocks = deadlock_count acc, avg_time = a\<rparr>"

definition finish :: "int \<Rightarrow> trial_acc \<Rightarrow> ScenarioStatistics py" where
  "finish u acc = (case final_avg acc of Inl e \<Rightarrow> Raise e | Inr a \<Rightarrow> Return (statistics u acc a))"

text \<open>
  One round of the outer loop (lines 65 to 114): the counters start at 0, the trials run,
  the dictionary is appended to \<^verbatim>\<open>summary\<close>.
\<close>

definition run_scenario ::
  "(nat \<Rightarrow> child) \<Rightarrow> int \<Rightarrow> nat \<Rightarrow> Scenario \<Rightarrow> world \<Rightarrow> ScenarioStatistics py \<times> world" where
  "run_scenario orc tmo n sc w =
     bind_py (trials orc tmo (scenario_users sc) n acc0 w)
       (\<lambda>acc w'. (finish (scenario_users sc) acc, w'))"

fun scenario_loop ::
  "(nat \<Rightarrow> child) \<Rightarrow> int \<Rightarrow> nat \<Rightarrow> Scenario list \<Rightarrow> ScenarioStatistics list \<Rightarrow> world
     \<Rightarrow> ScenarioStatistics list py \<times> world" where
  "scenario_loop orc tmo n [] summary w = (Return summary, w)"
| "scenario_loop orc tmo n (sc # scs) summary w =
     bind_py (run_scenario orc tmo n sc w)
       (\<lambda>item. scenario_loop orc tmo n scs (summary @ [item]))"

text \<open>
  \<^verbatim>\<open>run_stress_test\<close> with the three module constants as parameters, and with the
  constants of the module.
\<close>

definition run_battery ::
  "(nat \<Rightarrow> child) \<Rightarrow> Scenario list \<Rightarrow> nat \<Rightarrow> int \<Rightarrow> world
     \<Rightarrow> ScenarioStatistics list py \<times> world" where
  "run_battery orc scs n tmo w = scenario_loop orc tmo n scs [] w"

definition run_stress_test ::
  "(nat \<Rightarrow> child) \<Rightarrow> world \<Rightarrow> ScenarioStatistics list py \<times> world" where
  "run_stress_test orc w = run_battery orc SCENARIOS NUM_RUNS TIMEOUT_SECONDS w"

text \<open>
  \<^verbatim>\<open>print_report\<close> (lines 119 to 148): the loop that clears \<^verbatim>\<open>all_passed\<close> on an entry
  with \<^verbatim>\<open>deadlocks > 0 or fails > 0\<close>, then \<^verbatim>\<open>sys.exit(0)\<close> or \<^verbatim>\<open>sys.exit(1)\<close>. The
  function never returns normally.
\<close>

fun all_passed_loop :: "ScenarioStatistics list \<Rightarrow> bool \<Rightarrow> bool" where
  "all_passed_loop [] all_passed = all_passed"
| "all_passed_loop (item # rest) all_passed =
     all_passed_loop rest (if deadlocks item > 0 \<or> fails item > 0 then False else all_passed)"

definition all_passed :: "ScenarioStatistics list \<Rightarrow> bool" where
  "all_passed summary = all_passed_loop summary True"

definition print_report :: "ScenarioStatistics list \<Rightarrow> world \<Rightarrow> unit py \<times> world" where
  "print_report summary w = (if all_passed summary then (SysExit 0, w) else (SysExit 1, w))"

text \<open>
  \<^verbatim>\<open>check_compilation\<close> (lines 31 to 55): no \<^verbatim>\<open>make\<close> on the path, an exception of either
  call (\<^verbatim>\<open>except Exception\<close>) or a nonzero status of \<^verbatim>\<open>make\<close> end the script with status
  1. \<^verbatim>\<open>sys.exit\<close> inside the \<^verbatim>\<open>try\<close> is not an \<^verbatim>\<open>Exception\<close> and passes the handler.
  \<^verbatim>\<open>make clean\<close> writes to the null device, \<^verbatim>\<open>make\<close> into two pipes; neither has a time
  limit.
\<close>

definition make_invocation :: "string list \<Rightarrow> redirect \<Rightarrow> world \<Rightarrow> invocation" where
  "make_invocation args to w =
     \<lparr>argv = args, child_env = environ w, timeout = None, check = False,
      stdout_to = to, stderr_to = to\<rparr>"

definition check_compilation :: "host \<Rightarrow> (nat \<Rightarrow> child) \<Rightarrow> world \<Rightarrow> unit py \<times> world" where
  "check_compilation h orc w =
     (if \<not> make_found h then (SysExit 1, w)
      else
        (case subprocess_run orc (make_invocation [''make'', ''clean''] DEVNULL w) w of
           (Return r0, w1) \<Rightarrow>
             (case subprocess_run orc (make_invocation [''make''] PIPE w1) w1 of
                (Return (returncode, elapsed), w2) \<Rightarrow>
                  (if returncode \<noteq> 0 then (SysExit 1, w2) else (Return (), w2))
              | (Raise e, w2) \<Rightarrow> (SysExit 1, w2)
              | (SysExit n, w2) \<Rightarrow> (SysExit n, w2)
              | (Diverge, w2) \<Rightarrow> (Diverge, w2))
         | (Raise e, w1) \<Rightarrow> (SysExit 1, w1)
         | (SysExit n, w1) \<Rightarrow> (SysExit n, w1)
         | (Diverge, w1) \<Rightarrow> (Diverge, w1)))"

text \<open>The script: compile, run the battery, report.\<close>

definition stress_main :: "host \<Rightarrow> (nat \<Rightarrow> child) \<Rightarrow> world \<Rightarrow> unit py \<times> world" where
  "stress_main h orc w =
     bind_py (check_compilation h orc w)
       (\<lambda>u. \<lambda>w1. bind_py (run_stress_test orc w1) print_report)"

section \<open>The trace generator\<close>

definition SOURCE_FILE :: string where
  "SOURCE_FILE = ''dining_hall_logged.c''"

definition BINARY_NAME_logged :: string where
  "BINARY_NAME_logged = ''./dining_hall_logged''"

definition OUTPUT_DIR :: string where
  "OUTPUT_DIR = ''trace_logs''"

definition SCENARIOS_trace :: "int list" where
  "SCENARIOS_trace = [2, 3, 10]"

text \<open>
  \<^verbatim>\<open>setup\<close> (here \<open>setup_traces\<close>, lines 12 to 23): create the directory when it is
  not there (\<^verbatim>\<open>os.makedirs\<close> may raise), run the compiler without time limit, without
  \<^verbatim>\<open>check\<close> and without redirection, and leave with status 1 when its status is not 0.
  No exception is caught.
\<close>

definition gcc_invocation :: "world \<Rightarrow> invocation" where
  "gcc_invocation w =
     \<lparr>argv = [''gcc'', ''-Wall'', ''-pthread'', ''-O2'', ''-o'', BINARY_NAME_logged, SOURCE_FILE],
      child_env = environ w, timeout = None, check = False,
      stdout_to = Inherit, stderr_to = Inherit\<rparr>"

definition setup_traces :: "host \<Rightarrow> (nat \<Rightarrow> child) \<Rightarrow> world \<Rightarrow> unit py \<times> world" where
  "setup_traces h orc w =
     (let w0 = print Line_preparing w in
      if \<not> outdir_exists h \<and> \<not> makedirs_ok h then (Raise OSError, w0)
      else
        bind_py (subprocess_run orc (gcc_invocation w0) w0)
          (\<lambda>res w1. case res of (returncode, elapsed) \<Rightarrow>
             if returncode \<noteq> 0 then (SysExit 1, print Line_compile_error w1)
             else (Return (), w1)))"

text \<open>
  The log file of a degree, and the invocation of its one run: the environment handed to
  the child is a copy of \<^verbatim>\<open>os.environ\<close> in which \<^verbatim>\<open>DINING_LOG_FILE\<close> is set to that
  file; \<^verbatim>\<open>os.environ\<close> itself is not written.
\<close>

definition log_filename :: "int \<Rightarrow> string" where
  "log_filename n = os_path_join OUTPUT_DIR (''trace_'' @ str n @ ''_students.txt'')"

definition trace_invocation :: "int \<Rightarrow> world \<Rightarrow> invocation" where
  "trace_invocation n w =
     \<lparr>argv = [BINARY_NAME_logged, str n],
      child_env = AList.update ''DINING_LOG_FILE'' (log_filename n) (environ w),
      timeout = Some 10, check = True, stdout_to = Inherit, stderr_to = Inherit\<rparr>"

text \<open>
  The body of the loop of \<^verbatim>\<open>generate_traces\<close> (lines 29 to 46 of
  \<^verbatim>\<open>trace_generator.py\<close>): the two handlers print a line and the loop goes on; any other
  exception leaves the function.
\<close>

definition trace_scenario :: "(nat \<Rightarrow> child) \<Rightarrow> int \<Rightarrow> world \<Rightarrow> unit py \<times> world" where
  "trace_scenario orc n w =
     (let w0 = print (Line_running n (log_filename n)) w in
      case subprocess_run orc (trace_invocation n w0) w0 of
        (Return r, w1) \<Rightarrow> (Return (), w1)
      | (Raise e, w1) \<Rightarrow>
          (if e = TimeoutExpired then (Return (), print (Line_timeout n) w1)
           else if e = CalledProcessError then (Return (), print (Line_exec_error n) w1)
           else (Raise e, w1))
      | (SysExit k, w1) \<Rightarrow> (SysExit k, w1)
      | (Diverge, w1) \<Rightarrow> (Diverge, w1))"

fun trace_loop :: "(nat \<Rightarrow> child) \<Rightarrow> int list \<Rightarrow> world \<Rightarrow> unit py \<times> world" where
  "trace_loop orc [] w = (Return (), w)"
| "trace_loop orc (n # ns) w = bind_py (trace_scenario orc n w) (\<lambda>u. trace_loop orc ns)"

definition generate_traces :: "(nat \<Rightarrow> child) \<Rightarrow> world \<Rightarrow> unit py \<times> world" where
  "generate_traces orc w =
     bind_py (trace_loop orc SCENARIOS_trace (print Line_generating w))
       (\<lambda>u w1. (Return (), print Line_done w1))"

definition trace_main :: "host \<Rightarrow> (nat \<Rightarrow> child) \<Rightarrow> world \<Rightarrow> unit py \<times> world" where
  "trace_main h orc w = bind_py (setup_traces h orc w) (\<lambda>u. generate_traces orc)"

section \<open>The children that the next calls meet\<close>

text \<open>
  The behaviours of the children of the next \<open>n\<close> calls of \<^verbatim>\<open>subprocess.run\<close>, in order:
  the outcome sequence that a loop of \<open>n\<close> runs started in \<open>w\<close> consumes.
\<close>

definition upcoming :: "(nat \<Rightarrow> child) \<Rightarrow> world \<Rightarrow> nat \<Rightarrow> child list" where
  "upcoming orc w n = map orc [length (calls w) ..< length (calls w) + n]"

text \<open>
  The reading of one child by the trial loop of the stress tester, whose call has a time
  limit and reads the standard error through a pipe: which counter the child moves, which
  duration it adds, which progress mark it prints.
\<close>

fun is_success :: "child \<Rightarrow> bool" where
  "is_success (Exits rc d out_held err_held) = (rc = 0 \<and> \<not> err_held)"
| "is_success c = False"

fun is_failure :: "child \<Rightarrow> bool" where
  "is_failure (Exits rc d out_held err_held) = (rc \<noteq> 0 \<and> \<not> err_held)"
| "is_failure c = False"

fun is_deadlock :: "child \<Rightarrow> bool" where
  "is_deadlock (Exits rc d out_held err_held) = err_held"
| "is_deadlock Hangs = True"
| "is_deadlock NoSpawn = False"

fun duration :: "child \<Rightarrow> pyfloat" where
  "duration (Exits rc d out_held err_held) = d"
| "duration c = Finite 0"

fun mark :: "child \<Rightarrow> out_item" where
  "mark (Exits rc d out_held err_held) =
     (if err_held then Mark CHR ''D'' else if rc = 0 then Mark CHR ''.'' else Mark CHR ''E'')"
| "mark c = Mark CHR ''D''"

text \<open>The durations of the children counted as successes, in order.\<close>

definition success_durations :: "child list \<Rightarrow> pyfloat list" where
  "success_durations cs = map duration (filter is_success cs)"

text \<open>The positions, counted from \<open>k\<close>, of the children that a call with a time limit kills.\<close>

fun kills :: "nat \<Rightarrow> child list \<Rightarrow> nat list" where
  "kills k [] = []"
| "kills k (c # cs) = (if c = Hangs then [k] else []) @ kills (Suc k) cs"

definition tally :: "child list \<Rightarrow> trial_acc \<Rightarrow> trial_acc" where
  "tally cs acc =
     \<lparr>success_count = success_count acc + int (length (filter is_success cs)),
      fail_count = fail_count acc + int (length (filter is_failure cs)),
      deadlock_count = deadlock_count acc + int (length (filter is_deadlock cs)),
      time_sum = foldl float_add (time_sum acc) (success_durations cs)\<rparr>"

text \<open>The calls that a battery started in \<open>w\<close> makes when no child fails to start.\<close>

definition planned :: "Scenario list \<Rightarrow> nat \<Rightarrow> int \<Rightarrow> world \<Rightarrow> invocation list" where
  "planned scs n tmo w =
     concat (map (\<lambda>sc. replicate n (trial_invocation tmo (scenario_users sc) w)) scs)"

text \<open>The four integer entries of a dictionary of the summary.\<close>

definition counters :: "ScenarioStatistics \<Rightarrow> int \<times> int \<times> int \<times> int" where
  "counters item = (users item, success item, fails item, deadlocks item)"

text \<open>The result of a scenario with the average left out of its dictionary.\<close>

fun counted :: "ScenarioStatistics py \<Rightarrow> (int \<times> int \<times> int \<times> int) py" where
  "counted (Return item) = Return (counters item)"
| "counted (SysExit n) = SysExit n"
| "counted (Raise e) = Raise e"
| "counted Diverge = Diverge"

text \<open>The real number that a finite float stands for.\<close>

fun finite_value :: "pyfloat \<Rightarrow> real" where
  "finite_value (Finite x) = x"
| "finite_value y = 0"

text \<open>
  No addition of the left-to-right float sum of \<open>xs\<close>, started at \<open>s\<close>, rounds or
  overflows.
\<close>

fun exact_sums :: "real \<Rightarrow> real list \<Rightarrow> bool" where
  "exact_sums s [] = True"
| "exact_sums s (x # xs) = (float_result (s + x) = Finite (s + x) \<and> exact_sums (s + x) xs)"

text \<open>What the trace driver prints after the run of degree \<open>n\<close>, by the child's behaviour.\<close>

fun trace_report :: "int \<Rightarrow> child \<Rightarrow> out_item list" where
  "trace_report n (Exits rc d out_held err_held) = (if rc = 0 then [] else [Line_exec_error n])"
| "trace_report n Hangs = [Line_timeout n]"
| "trace_report n NoSpawn = []"

text \<open>Reading a decimal numeral back, to show that \<open>str\<close> loses nothing.\<close>

definition digit_value :: "char \<Rightarrow> nat" where
  "digit_value c = length (takeWhile (\<lambda>d. d \<noteq> c) ''0123456789'')"

definition digits_value :: "string \<Rightarrow> nat" where
  "digits_value s = foldl (\<lambda>a c. 10 * a + digit_value c) 0 s"

section \<open>The trial outcomes of the specification\<close>

text \<open>
  The specification names three outcomes of a trial and lets the aggregator count each
  kind and add up the durations of the successes. The code has no such type: the three
  branches of the loop body move the counters directly. \<open>spec_count\<close> is the
  specification's reading, to be compared with \<open>trial\<close>; \<open>kind_of\<close> forgets the duration.
\<close>

datatype TrialOutcome = Success pyfloat | RuntimeError | TimeoutDeadlock

datatype outcome_kind = A_Success | A_RuntimeError | A_TimeoutDeadlock

fun kind_of :: "TrialOutcome \<Rightarrow> outcome_kind" where
  "kind_of (Success d) = A_Success"
| "kind_of RuntimeError = A_RuntimeError"
| "kind_of TimeoutDeadlock = A_TimeoutDeadlock"

fun spec_count :: "TrialOutcome \<Rightarrow> trial_acc \<Rightarrow> trial_acc" where
  "spec_count (Success d) acc =
     acc\<lparr>success_count := success_count acc + 1, time_sum := float_add (time_sum acc) d\<rparr>"
| "spec_count RuntimeError acc = acc\<lparr>fail_count := fail_count acc + 1\<rparr>"
| "spec_count TimeoutDeadlock acc = acc\<lparr>deadlock_count := deadlock_count acc + 1\<rparr>"

section \<open>Concrete inputs\<close>

definition w_init :: world where
  "w_init = \<lparr>calls = [], environ = [], stdout = [], killed = []\<rparr>"

definition w_env :: world where
  "w_env = \<lparr>calls = [],
            environ = [(''PATH'', ''/usr/bin''), (''DINING_LOG_FILE'', ''old.txt'')],
            stdout = [], killed = []\<rparr>"

definition w_made :: world where
  "w_made =
     \<lparr>calls = [make_invocation [''make'', ''clean''] DEVNULL w_init,
               make_invocation [''make''] PIPE w_init],
      environ = [], stdout = [], killed = []\<rparr>"

definition w_compiled :: world where
  "w_compiled =
     \<lparr>calls = [gcc_invocation w_init], environ = [], stdout = [Line_preparing], killed = []\<rparr>"

definition host_ok :: host where
  "host_ok = \<lparr>make_found = True, outdir_exists = True, makedirs_ok = True\<rparr>"

definition sc2 :: Scenario where
  "sc2 = \<lparr>scenario_users = 2, scenario_label = ''Par (Minimal Check)''\<rparr>"

text \<open>
  The doubles nearest to 0.1, 0.2, 0.3 and 0.6, and the doubles printed as
  0.10000000000000002, 0.19999999999999998, 0.20000000000000004, 0.30000000000000004
  and 0.6000000000000001.
\<close>

definition d01 :: real where "d01 = 7205759403792794 / 2 ^ 56"
definition d02 :: real where "d02 = 7205759403792794 / 2 ^ 55"
definition d03 :: real where "d03 = 5404319552844595 / 2 ^ 54"
definition d01_up :: real where "d01_up = 7205759403792795 / 2 ^ 56"
definition d02_down :: real where "d02_down = 7205759403792793 / 2 ^ 55"
definition d02_up :: real where "d02_up = 7205759403792795 / 2 ^ 55"
definition d03_up :: real where "d03_up = 5404319552844596 / 2 ^ 54"
definition d06 :: real where "d06 = 5404319552844595 / 2 ^ 53"
definition d06_up :: real where "d06_up = 5404319552844596 / 2 ^ 53"

text \<open>Children: a success, a crash, a hang, a success; the same four in another order.\<close>

definition mixed :: "nat \<Rightarrow> child" where
  "mixed k = (if k = 0 then Exits 0 (Finite (1 / 4)) False False
              else if k = 1 then Exits 1 (Finite 100) False False
              else if k = 2 then Hangs else Exits 0 (Finite (3 / 4)) False False)"

definition shuffled :: "nat \<Rightarrow> child" where
  "shuffled k = (if k = 0 then Hangs else if k = 1 then Exits 0 (Finite (3 / 4)) False False
                 else if k = 2 then Exits 0 (Finite (1 / 4)) False False
                 else Exits 1 (Finite 100) False False)"

definition always_ok :: "nat \<Rightarrow> child" where
  "always_ok k = Exits 0 (Finite (1 / 4)) False False"

definition always_crash :: "nat \<Rightarrow> child" where
  "always_crash k = Exits 1 (Finite 100) False False"

text \<open>
  A child that ends at once with status 0 and leaves a descendant that keeps the standard
  error open beyond the limit.
\<close>

definition lingering :: "nat \<Rightarrow> child" where
  "lingering k = Exits 0 (Finite (1 / 4)) False True"


definition ascending :: "nat \<Rightarrow> child" where
  "ascending k = (if k = 0 then Exits 0 (Finite d01) False False
                  else if k = 1 then Exits 0 (Finite d02) False False
                  else Exits 0 (Finite d03) False False)"

definition descending :: "nat \<Rightarrow> child" where
  "descending k = (if k = 0 then Exits 0 (Finite d03) False False
                   else if k = 1 then Exits 0 (Finite d02) False False
                   else Exits 0 (Finite d01) False False)"

text \<open>Both \<^verbatim>\<open>make\<close> calls succeed, and then the binary cannot be started.\<close>

definition binary_missing :: "nat \<Rightarrow> child" where
  "binary_missing k = (if k < 2 then Exits 0 (Finite 1) False False else NoSpawn)"

text \<open>Both \<^verbatim>\<open>make\<close> calls and three trials succeed; the fourth trial cannot be started.\<close>

definition binary_lost :: "nat \<Rightarrow> child" where
  "binary_lost k = (if k < 5 then Exits 0 (Finite 1) False False else NoSpawn)"

text \<open>The compiler ends with status 1.\<close>

definition compiler_fails :: "nat \<Rightarrow> child" where
  "compiler_fails k = Exits 1 (Finite 0) False False"

text \<open>The compiler succeeds; degree 2 succeeds, degree 3 hangs, degree 10 crashes.\<close>

definition trace_mixed :: "nat \<Rightarrow> child" where
  "trace_mixed k = (if k = 0 then Exits 0 (Finite 2) False False
                    else if k = 1 then Exits 0 (Finite (1 / 4)) False False
                    else if k = 2 then Hangs else Exits 1 (Finite (1 / 2)) False False)"

text \<open>Degree 2 runs; the child of degree 3 cannot be started.\<close>

definition second_missing :: "nat \<Rightarrow> child" where
  "second_missing k = (if k = 1 then NoSpawn else Exits 0 (Finite (1 / 4)) False False)"

definition clean_summary :: "ScenarioStatistics list" where
  "clean_summary =
     [\<lparr>users = 2, success = 30, fails = 0, deadlocks = 0, avg_time = Finite (1 / 128)\<rparr>,
      \<lparr>users = 3, success = 30, fails = 0, deadlocks = 0, avg_time = Finite (1 / 64)\<rparr>]"

definition dirty_summary :: "ScenarioStatistics list" where
  "dirty_summary =
     [\<lparr>users = 2, success = 30, fails = 0, deadlocks = 0, avg_time = Finite (1 / 128)\<rparr>,
      \<lparr>users = 3, success = 28, fails = 1, deadlocks = 1, avg_time = Finite (1 / 64)\<rparr>]"

definition other_dirty_summary :: "ScenarioStatistics list" where
  "other_dirty_summary =
     [\<lparr>users = 7, success = 1, fails = 0, deadlocks = 0, avg_time = Finite 3\<rparr>,
      \<lparr>users = 9, success = 0, fails = 1, deadlocks = 1, avg_time = Finite 0\<rparr>]"

definition ok_summary :: "ScenarioStatistics list" where
  "ok_summary =
     [\<lparr>users = 2, success = 30, fails = 0, deadlocks = 0, avg_time = Finite (1 / 4)\<rparr>,
      \<lparr>users = 3, success = 30, fails = 0, deadlocks = 0, avg_time = Finite (1 / 4)\<rparr>,
      \<lparr>users = 10, success = 30, fails = 0, deadlocks = 0, avg_time = Finite (1 / 4)\<rparr>,
      \<lparr>users = 50, success = 30, fails = 0, deadlocks = 0, avg_time = Finite (1 / 4)\<rparr>]"

section \<open>Rounding to a double\<close>

lemma round_half_even_of_int [simp]: "round_half_even (of_int i) = i"
  by (simp add: round_half_even_def)

lemma round_half_even_le: "t \<le> of_int N \<Longrightarrow> round_half_even t \<le> N"
  unfolding round_half_even_def Let_def
  by (auto simp: le_floor_iff floor_le_iff)

lemma bitlen_eqI:
  assumes "2 ^ n \<le> z" and "z < 2 ^ Suc n"
  shows "bitlen z = int n + 1"
proof (rule antisym)
  show "bitlen z \<le> int n + 1"
    using assms(2) by (simp add: bitlen_le_iff_power nat_add_distrib)
  show "int n + 1 \<le> bitlen z"
    using assms(1) by (simp add: bitlen_ge_iff_power nat_add_distrib)
qed

lemma floor_pow2_bounds:
  fixes y :: real
  assumes "2 ^ n \<le> y" and "y < 2 ^ Suc n"
  shows "(2::int) ^ n \<le> \<lfloor>y\<rfloor>" and "\<lfloor>y\<rfloor> < (2::int) ^ Suc n"
proof -
  have "real_of_int (2 ^ n) \<le> y" using assms(1) by simp
  then show "(2::int) ^ n \<le> \<lfloor>y\<rfloor>" by (simp only: le_floor_iff)
  have "y < real_of_int (2 ^ Suc n)" using assms(2) by simp
  then show "\<lfloor>y\<rfloor> < (2::int) ^ Suc n" by (simp only: floor_less_iff)
qed

lemma round_b64_0 [simp]: "round_b64 0 = 0"
  by (simp add: round_b64_def)

text \<open>
  The rounding of a number whose significand, scaled by \<open>2 ^ k\<close>, has 53 bits: the scaled
  value is rounded to an integer.
\<close>

lemma round_b64_scaled:
  assumes lo: "2 ^ 52 \<le> \<bar>x\<bar> * 2 ^ k" and hi: "\<bar>x\<bar> * 2 ^ k < 2 ^ 53" and k: "k \<le> 1074"
  shows "round_b64 x = sgn x * (of_int (round_half_even (\<bar>x\<bar> * 2 ^ k)) / 2 ^ k)"
proof -
  define q where "q = 1074 - k"
  define y where "y = \<bar>x\<bar> * 2 ^ 1074"
  have k1074: "1074 = k + q" using k by (simp add: q_def)
  have y: "y = \<bar>x\<bar> * 2 ^ k * 2 ^ q"
    unfolding y_def by (subst k1074) (simp add: power_add)
  have "2 ^ 52 * 2 ^ q \<le> y"
    unfolding y using lo by (intro mult_right_mono) simp_all
  then have a: "2 ^ (52 + q) \<le> y" by (simp add: power_add)
  have "y < 2 ^ 53 * 2 ^ q"
    unfolding y using hi by (intro mult_strict_right_mono) simp_all
  then have b: "y < 2 ^ Suc (52 + q)" by (simp add: power_add)
  have "bitlen \<lfloor>y\<rfloor> = int (52 + q) + 1"
    using floor_pow2_bounds [OF a b] by (rule bitlen_eqI)
  then have s: "nat (bitlen \<lfloor>y\<rfloor> - 53) = q" by simp
  have scaled: "y / 2 ^ q = \<bar>x\<bar> * 2 ^ k" by (simp add: y)
  have "round_b64 x = sgn x * (of_int (round_half_even (y / 2 ^ q)) * 2 ^ q / 2 ^ 1074)"
    unfolding round_b64_def Let_def y_def [symmetric] s ..
  also have "of_int (round_half_even (y / 2 ^ q)) * 2 ^ q / (2 ^ 1074 :: real) =
      of_int (round_half_even (\<bar>x\<bar> * 2 ^ k)) / 2 ^ k"
    unfolding scaled by (subst k1074) (simp add: power_add)
  finally show ?thesis .
qed

text \<open>Rounding never passes a power of two.\<close>

lemma round_b64_bound:
  assumes "\<bar>x\<bar> \<le> 2 ^ m"
  shows "\<bar>round_b64 x\<bar> \<le> 2 ^ m"
proof -
  define y where "y = \<bar>x\<bar> * 2 ^ 1074"
  define J where "J = m + 1074"
  define s where "s = nat (bitlen \<lfloor>y\<rfloor> - 53)"
  have y0: "0 \<le> y" by (simp add: y_def)
  have yJ: "y \<le> 2 ^ J"
    unfolding y_def J_def power_add using assms by (intro mult_right_mono) simp_all
  then have "y < 2 ^ Suc J"
    by (smt (verit) power_strict_increasing_iff lessI)
  then have "\<lfloor>y\<rfloor> < (2::int) ^ Suc J"
    by (metis floor_less_iff of_int_numeral of_int_power)
  then have "bitlen \<lfloor>y\<rfloor> \<le> int (Suc J)"
    unfolding bitlen_le_iff_power by (simp only: nat_int) simp
  then have sJ: "s \<le> J" by (simp add: s_def J_def)
  have "y / 2 ^ s \<le> 2 ^ J / 2 ^ s"
    using yJ by (simp add: divide_right_mono)
  also have "\<dots> = 2 ^ (J - s)"
    using sJ by (simp add: power_diff)
  finally have "y / 2 ^ s \<le> real_of_int (2 ^ (J - s))" by simp
  then have "round_half_even (y / 2 ^ s) \<le> 2 ^ (J - s)"
    by (rule round_half_even_le)
  then have "real_of_int (round_half_even (y / 2 ^ s)) \<le> 2 ^ (J - s)"
    by (metis of_int_le_iff of_int_numeral of_int_power)
  then have "real_of_int (round_half_even (y / 2 ^ s)) * 2 ^ s \<le> 2 ^ (J - s) * 2 ^ s"
    by (intro mult_right_mono) simp_all
  also have "\<dots> = 2 ^ J"
    using sJ by (simp flip: power_add)
  finally have upper: "real_of_int (round_half_even (y / 2 ^ s)) * 2 ^ s / 2 ^ 1074 \<le> 2 ^ m"
    by (simp add: J_def power_add field_simps)
  have "0 \<le> y / 2 ^ s" using y0 by simp
  then have nn: "0 \<le> round_half_even (y / 2 ^ s)"
    unfolding round_half_even_def Let_def by (auto simp: le_floor_iff)
  then have lower: "0 \<le> real_of_int (round_half_even (y / 2 ^ s)) * 2 ^ s / 2 ^ 1074"
    by simp
  have "\<bar>round_b64 x\<bar> =
      \<bar>sgn x\<bar> * (real_of_int (round_half_even (y / 2 ^ s)) * 2 ^ s / 2 ^ 1074)"
    unfolding round_b64_def Let_def y_def [symmetric] s_def [symmetric]
    using nn by (simp add: abs_mult)
  also have "\<dots> \<le> 1 * (real_of_int (round_half_even (y / 2 ^ s)) * 2 ^ s / 2 ^ 1074)"
    using lower by (intro mult_right_mono) (simp_all add: abs_sgn_eq)
  finally show ?thesis using upper by simp
qed

text \<open>A multiple of a power of two with a significand below \<open>2 ^ 53\<close> is a double.\<close>

lemma round_b64_exact:
  assumes y: "\<bar>x\<bar> * 2 ^ 1074 = of_int i * 2 ^ q" and i: "i < 2 ^ 53"
  shows "round_b64 x = x"
proof (cases "x = 0")
  case True
  then show ?thesis by simp
next
  case False
  define P :: real where "P = 2 ^ 1074"
  define s where "s = nat (bitlen (i * 2 ^ q) - 53)"
  have P: "0 < P" by (simp add: P_def)
  have yP: "\<bar>x\<bar> * P = real_of_int i * 2 ^ q"
    unfolding P_def by (rule y)
  have "0 < \<bar>x\<bar> * P" using False P by simp
  then have "0 < real_of_int i * 2 ^ q" by (simp only: yP)
  then have ipos: "0 < i" by (simp add: zero_less_mult_iff)
  have fl: "\<lfloor>real_of_int i * 2 ^ q\<rfloor> = i * 2 ^ q"
  proof -
    have "real_of_int i * 2 ^ q = real_of_int (i * 2 ^ q)" by simp
    then show ?thesis by (simp only: floor_of_int)
  qed
  have "bitlen i \<le> 53"
    using i by (simp add: bitlen_le_iff_power)
  then have sq: "s \<le> q"
    unfolding s_def using ipos by simp
  from sq obtain t where t: "q = s + t"
    by (auto simp: le_iff_add)
  have "real_of_int i * 2 ^ q / 2 ^ s = real_of_int (i * 2 ^ (q - s))"
    by (simp add: t power_add)
  then have r: "round_half_even (real_of_int i * 2 ^ q / 2 ^ s) = i * 2 ^ (q - s)"
    by (simp only: round_half_even_of_int)
  have again: "real_of_int (i * 2 ^ (q - s)) * 2 ^ s = real_of_int i * 2 ^ q"
    by (simp add: t power_add)
  have "round_b64 x = sgn x * (real_of_int (i * 2 ^ (q - s)) * 2 ^ s / P)"
    unfolding round_b64_def Let_def P_def [symmetric] yP fl s_def [symmetric] r ..
  also have "\<dots> = sgn x * (\<bar>x\<bar> * P / P)"
    by (simp only: again yP)
  also have "\<dots> = x"
    using P by (simp add: sgn_mult_abs)
  finally show ?thesis .
qed

lemma round_b64_of_int:
  assumes "\<bar>k\<bar> < 2 ^ 53"
  shows "round_b64 (of_int k) = of_int k"
proof (rule round_b64_exact [of _ "\<bar>k\<bar>" 1074])
  show "\<bar>real_of_int k\<bar> * 2 ^ 1074 = real_of_int \<bar>k\<bar> * 2 ^ 1074"
    by (simp only: of_int_abs)
  show "\<bar>k\<bar> < 2 ^ 53" by (rule assms)
qed

lemma float_of_int_small:
  assumes "\<bar>k\<bar> < 2 ^ 53"
  shows "float_of_int k = Inr (of_int k)"
proof -
  have "\<bar>real_of_int k\<bar> < 2 ^ 53"
    using assms by (metis of_int_abs of_int_less_iff of_int_numeral of_int_power)
  also have "(2::real) ^ 53 < 2 ^ 1024" by simp
  finally have "\<not> 2 ^ 1024 \<le> \<bar>real_of_int k\<bar>" by simp
  then show ?thesis
    by (simp add: float_of_int_def round_b64_of_int [OF assms])
qed

lemma finish_small:
  assumes "success_count acc < 2 ^ 53"
  shows "\<exists>a. finish u acc = Return (statistics u acc a)"
proof (cases "success_count acc > 0")
  case True
  with assms have "\<bar>success_count acc\<bar> < 2 ^ 53" by simp
  from float_of_int_small [OF this] True show ?thesis
    by (auto simp: finish_def final_avg_def float_truediv_int_def)
next
  case False
  then show ?thesis by (auto simp: finish_def final_avg_def)
qed

lemma foldl_float_add_exact:
  "exact_sums s xs \<Longrightarrow> foldl float_add (Finite s) (map Finite xs) = Finite (s + sum_list xs)"
  by (induction xs arbitrary: s) (simp_all add: add.assoc)

lemma float_result_exact:
  assumes "\<bar>x\<bar> * 2 ^ 1074 = of_int i * 2 ^ q" and "i < 2 ^ 53" and "\<bar>x\<bar> < 2 ^ 1024"
  shows "float_result x = Finite x"
proof -
  from assms(3) have "\<not> 2 ^ 1024 \<le> x" and "\<not> x \<le> - (2 ^ 1024)"
    by (simp_all only: abs_less_iff not_le) simp_all
  then show ?thesis
    by (simp only: float_result_def Let_def round_b64_exact [OF assms(1,2)] if_False)
qed

section \<open>Float arithmetic on concrete values\<close>

lemma float_result_dyadic:
  assumes "\<bar>i\<bar> < 2 ^ 53" and "p \<le> 1074"
  shows "float_result (of_int i / 2 ^ p) = Finite (of_int i / 2 ^ p)"
proof (rule float_result_exact [of _ "\<bar>i\<bar>" "1074 - p"])
  have eq: "1074 = p + (1074 - p)" using assms(2) by simp
  have "\<bar>real_of_int i / 2 ^ p\<bar> * 2 ^ (p + (1074 - p)) = real_of_int \<bar>i\<bar> * 2 ^ (1074 - p)"
    by (simp add: power_add abs_divide)
  then show "\<bar>real_of_int i / 2 ^ p\<bar> * 2 ^ 1074 = real_of_int \<bar>i\<bar> * 2 ^ (1074 - p)"
    by (simp only: eq [symmetric])
  show "\<bar>i\<bar> < 2 ^ 53" by (rule assms(1))
  have "\<bar>real_of_int i / 2 ^ p\<bar> \<le> \<bar>real_of_int i\<bar>"
    by (simp add: abs_divide divide_le_eq_1_pos field_simps)
       (metis abs_ge_zero mult_left_mono mult.right_neutral one_le_numeral one_le_power)
  also have "\<dots> < 2 ^ 53"
    using assms(1) by (metis of_int_abs of_int_less_iff of_int_numeral of_int_power)
  also have "(2::real) ^ 53 < 2 ^ 1024" by simp
  finally show "\<bar>real_of_int i / 2 ^ p\<bar> < 2 ^ 1024" .
qed

lemma float_result_scaled:
  assumes "0 < x" and lo: "2 ^ 52 \<le> x * 2 ^ k" and hi: "x * 2 ^ k < 2 ^ 53" and k: "k \<le> 1074"
  shows "float_result x = Finite (of_int (round_half_even (x * 2 ^ k)) / 2 ^ k)"
proof -
  have ax: "\<bar>x\<bar> = x" using assms(1) by simp
  have r: "round_b64 x = of_int (round_half_even (x * 2 ^ k)) / 2 ^ k"
    using round_b64_scaled [of x k] assms by (simp add: ax)
  have "x * 2 ^ k \<le> 2 ^ 53 * 2 ^ k"
  proof -
    have "x * 2 ^ k \<le> 2 ^ 53" using hi by simp
    also have "(2::real) ^ 53 \<le> 2 ^ 53 * 2 ^ k" by simp
    finally show ?thesis .
  qed
  then have "x \<le> 2 ^ 53" by simp
  then have "\<bar>x\<bar> \<le> 2 ^ 53" by (simp add: ax)
  then have "\<bar>round_b64 x\<bar> \<le> 2 ^ 53" by (rule round_b64_bound)
  also have "(2::real) ^ 53 < 2 ^ 1024" by simp
  finally have "\<bar>round_b64 x\<bar> < 2 ^ 1024" .
  then have "\<not> 2 ^ 1024 \<le> round_b64 x" and "\<not> round_b64 x \<le> - (2 ^ 1024)"
    by (simp_all only: abs_less_iff not_le) simp_all
  then show ?thesis
    by (simp only: float_result_def Let_def if_False r)
qed

lemma float_result_values:
  "float_result (1 / 4) = Finite (1 / 4)"
  "float_result (1 / 2) = Finite (1 / 2)"
  "float_result (3 / 4) = Finite (3 / 4)"
  "float_result 1 = Finite 1"
  using float_result_dyadic [of 1 2] float_result_dyadic [of 1 1] float_result_dyadic [of 3 2]
    float_result_dyadic [of 1 0]
  by simp_all

lemma float_of_int_values:
  "float_of_int 2 = Inr 2" "float_of_int 3 = Inr 3" "float_of_int 30 = Inr 30"
  using float_of_int_small [of 2] float_of_int_small [of 3] float_of_int_small [of 30]
  by simp_all

lemma doubles:
  "float_result d01 = Finite d01"
  "float_result d02 = Finite d02"
  "float_result d03 = Finite d03"
  using float_result_dyadic [of 7205759403792794 56] float_result_dyadic [of 7205759403792794 55]
    float_result_dyadic [of 5404319552844595 54]
  by (simp_all add: d01_def d02_def d03_def)

lemma steady_sums:
  "float_result d01 = Finite d01"
  "float_result (2 * d01) = Finite d02"
  "float_result (d02 + d01) = Finite d03_up"
  "float_result (d03_up / 3) = Finite d01_up"
proof -
  show "float_result d01 = Finite d01"
    using float_result_dyadic [of 7205759403792794 56] by (simp add: d01_def)
  show "float_result (2 * d01) = Finite d02"
    using float_result_dyadic [of 7205759403792794 55] by (simp add: d01_def d02_def)
  show "float_result (d02 + d01) = Finite d03_up"
    by (subst float_result_scaled [where k = 54])
       (simp_all add: d01_def d02_def d03_up_def round_half_even_def)
  show "float_result (d03_up / 3) = Finite d01_up"
    by (subst float_result_scaled [where k = 56])
       (simp_all add: d03_up_def d01_up_def round_half_even_def)
qed

lemma ascending_sums:
  "float_result (d01 + d02) = Finite d03_up"
  "float_result (d03_up + d03) = Finite d06_up"
  "float_result (d06_up / 3) = Finite d02_up"
proof -
  show "float_result (d01 + d02) = Finite d03_up"
    by (subst float_result_scaled [where k = 54])
       (simp_all add: d01_def d02_def d03_up_def round_half_even_def)
  show "float_result (d03_up + d03) = Finite d06_up"
    by (subst float_result_scaled [where k = 53])
       (simp_all add: d03_def d03_up_def d06_up_def round_half_even_def)
  show "float_result (d06_up / 3) = Finite d02_up"
    by (subst float_result_scaled [where k = 55])
       (simp_all add: d06_up_def d02_up_def round_half_even_def)
qed

lemma descending_sums:
  "float_result d03 = Finite d03"
  "float_result (d03 + d02) = Finite (1 / 2)"
  "float_result (1 / 2 + d01) = Finite d06"
  "float_result (d06 / 3) = Finite d02_down"
proof -
  show "float_result d03 = Finite d03"
    using float_result_dyadic [of 5404319552844595 54] by (simp add: d03_def)
  show "float_result (d03 + d02) = Finite (1 / 2)"
    using float_result_dyadic [of 1 1] by (simp add: d03_def d02_def)
  show "float_result (1 / 2 + d01) = Finite d06"
    by (subst float_result_scaled [where k = 53])
       (simp_all add: d01_def d06_def round_half_even_def)
  show "float_result (d06 / 3) = Finite d02_down"
    by (subst float_result_scaled [where k = 55])
       (simp_all add: d06_def d02_down_def round_half_even_def)
qed

lemma exact_sums_quarters:
  "j + n < 2 ^ 53 \<Longrightarrow> exact_sums (real j / 4) (replicate n (1 / 4))"
proof (induction n arbitrary: j)
  case 0
  then show ?case by simp
next
  case (Suc n)
  have eq: "real j / 4 + 1 / 4 = real (Suc j) / 4" by simp
  have "int (Suc j) < 2 ^ 53"
    using Suc.prems by (metis add_Suc_right add_lessD1 of_nat_less_iff of_nat_numeral of_nat_power add_Suc)
  then have "\<bar>int (Suc j)\<bar> < 2 ^ 53" by simp
  from float_result_dyadic [OF this, of 2]
  have "float_result (real (Suc j) / 4) = Finite (real (Suc j) / 4)" by simp
  moreover have "exact_sums (real (Suc j) / 4) (replicate n (1 / 4))"
    by (rule Suc.IH) (use Suc.prems in simp)
  ultimately show ?case
    by (simp only: replicate_Suc exact_sums.simps eq)
qed

section \<open>The verdict\<close>

lemma all_passed_loop_iff:
  "all_passed_loop summary b \<longleftrightarrow> b \<and> (\<forall>s\<in>set summary. \<not> (deadlocks s > 0 \<or> fails s > 0))"
  by (induction summary arbitrary: b) auto

text \<open>
  C1. For a summary whose counters are non-negative, as the data model has them and as
  \<open>run_stress_test\<close> produces them (\<open>run_stress_test_counters_nonneg\<close> below),
  \<^verbatim>\<open>print_report\<close> passes exactly when every entry has no deadlock and no runtime error;
  when it passes the process ends with exit status 0, otherwise with exit status 1.
\<close>

theorem print_report_verdict:
  assumes "\<forall>s\<in>set summary. 0 \<le> deadlocks s \<and> 0 \<le> fails s"
  shows "(all_passed summary \<longleftrightarrow> (\<forall>s\<in>set summary. deadlocks s = 0 \<and> fails s = 0))
       \<and> (all_passed summary \<longrightarrow> exit_status (fst (print_report summary w)) = Some 0)
       \<and> (\<not> all_passed summary \<longrightarrow> exit_status (fst (print_report summary w)) = Some 1)"
proof -
  have "all_passed summary \<longleftrightarrow> (\<forall>s\<in>set summary. deadlocks s = 0 \<and> fails s = 0)"
    unfolding all_passed_def all_passed_loop_iff using assms by force
  then show ?thesis by (simp add: print_report_def)
qed

theorem print_report_verdict_witness:
  "all_passed clean_summary \<and> exit_status (fst (print_report clean_summary w_init)) = Some 0
   \<and> \<not> all_passed dirty_summary
   \<and> exit_status (fst (print_report dirty_summary w_init)) = Some 1"
  using print_report_verdict [of clean_summary w_init]
    print_report_verdict [of dirty_summary w_init]
  by (simp add: clean_summary_def dirty_summary_def)

text \<open>
  C10. The verdict and the exit status read nothing but the \<^verbatim>\<open>fails\<close> and
  \<^verbatim>\<open>deadlocks\<close> fields: two summaries that agree entry by entry on these two fields get
  the same verdict and the same exit status, whatever their degrees, success counts and
  average durations.
\<close>

theorem verdict_reads_failures_only:
  assumes "map fails s1 = map fails s2" and "map deadlocks s1 = map deadlocks s2"
  shows "all_passed s1 = all_passed s2
     \<and> fst (print_report s1 w1) = fst (print_report s2 w2)
     \<and> exit_status (fst (print_report s1 w1)) = exit_status (fst (print_report s2 w2))"
proof -
  have len: "length s1 = length s2"
    using assms(1) by (rule map_eq_imp_length_eq)
  from len assms have "all_passed_loop s1 b = all_passed_loop s2 b" for b
    by (induction s1 s2 arbitrary: b rule: list_induct2) auto
  then show ?thesis by (simp add: all_passed_def print_report_def)
qed

theorem verdict_reads_failures_only_witness:
  "map fails dirty_summary = map fails other_dirty_summary
   \<and> map deadlocks dirty_summary = map deadlocks other_dirty_summary
   \<and> map users dirty_summary \<noteq> map users other_dirty_summary
   \<and> map success dirty_summary \<noteq> map success other_dirty_summary
   \<and> all_passed dirty_summary = all_passed other_dirty_summary
   \<and> exit_status (fst (print_report dirty_summary w_init))
       = exit_status (fst (print_report other_dirty_summary w_env))"
proof -
  have a: "map fails dirty_summary = map fails other_dirty_summary"
    and b: "map deadlocks dirty_summary = map deadlocks other_dirty_summary"
    by (simp_all add: dirty_summary_def other_dirty_summary_def)
  from verdict_reads_failures_only [OF a b, of w_init w_env] a b show ?thesis
    by (simp add: dirty_summary_def other_dirty_summary_def)
qed

section \<open>One trial\<close>

lemma upcoming_0 [simp]: "upcoming orc w 0 = []"
  by (simp add: upcoming_def)

lemma length_upcoming [simp]: "length (upcoming orc w n) = n"
  by (simp add: upcoming_def)

lemma upcoming_Suc:
  "length (calls w') = Suc (length (calls w)) \<Longrightarrow>
   upcoming orc w (Suc n) = orc (length (calls w)) # upcoming orc w' n"
  by (simp add: upcoming_def upt_conv_Cons map_upt_Suc del: upt_Suc)

lemma upcoming_add:
  assumes "length (calls w') = length (calls w) + n"
  shows "upcoming orc w (n + m) = upcoming orc w n @ upcoming orc w' m"
proof -
  have "[length (calls w)..<length (calls w) + n + m] =
        [length (calls w)..<length (calls w) + n] @ [length (calls w) + n..<length (calls w) + n + m]"
    by (rule upt_add_eq_append) simp
  then show ?thesis
    by (simp add: upcoming_def add.assoc assms)
qed

lemma upcoming_snoc: "upcoming orc w (Suc j) = upcoming orc w j @ [orc (length (calls w) + j)]"
  by (simp add: upcoming_def)

lemma trial_Exits_0:
  "orc (length (calls w)) = Exits 0 d out_held False \<Longrightarrow>
   trial orc tmo u acc w =
     (Return (spec_count (Success d) acc),
      w\<lparr>calls := calls w @ [trial_invocation tmo u w], stdout := stdout w @ [Mark CHR ''.'']\<rparr>)"
  by (simp add: trial_def subprocess_run_def print_def trial_invocation_def waits_for_pipe_def)

lemma trial_Exits_nonzero:
  "orc (length (calls w)) = Exits rc d out_held False \<Longrightarrow> rc \<noteq> 0 \<Longrightarrow>
   trial orc tmo u acc w =
     (Return (spec_count RuntimeError acc),
      w\<lparr>calls := calls w @ [trial_invocation tmo u w], stdout := stdout w @ [Mark CHR ''E'']\<rparr>)"
  by (simp add: trial_def subprocess_run_def print_def trial_invocation_def waits_for_pipe_def)

lemma trial_Hangs:
  "orc (length (calls w)) = Hangs \<Longrightarrow>
   trial orc tmo u acc w =
     (Return (spec_count TimeoutDeadlock acc),
      w\<lparr>calls := calls w @ [trial_invocation tmo u w], stdout := stdout w @ [Mark CHR ''D''],
        killed := killed w @ [length (calls w)]\<rparr>)"
  by (simp add: trial_def subprocess_run_def print_def trial_invocation_def)

lemma trial_stderr_held:
  "orc (length (calls w)) = Exits rc d out_held True \<Longrightarrow>
   trial orc tmo u acc w =
     (Return (spec_count TimeoutDeadlock acc),
      w\<lparr>calls := calls w @ [trial_invocation tmo u w], stdout := stdout w @ [Mark CHR ''D'']\<rparr>)"
  by (simp add: trial_def subprocess_run_def print_def trial_invocation_def waits_for_pipe_def)

lemma trial_no_spawn:
  "orc (length (calls w)) = NoSpawn \<Longrightarrow>
   trial orc tmo u acc w = (Raise OSError, w\<lparr>calls := calls w @ [trial_invocation tmo u w]\<rparr>)"
  by (simp add: trial_def subprocess_run_def)

lemma trial_spawned:
  "orc (length (calls w)) \<noteq> NoSpawn \<Longrightarrow>
   trial orc tmo u acc w =
     (Return (tally [orc (length (calls w))] acc),
      w\<lparr>calls := calls w @ [trial_invocation tmo u w],
        stdout := stdout w @ [mark (orc (length (calls w)))],
        killed := killed w @ kills (length (calls w)) [orc (length (calls w))]\<rparr>)"
proof (cases "orc (length (calls w))")
  case (Exits rc d out_held err_held)
  then show ?thesis
    by (cases err_held; cases "rc = 0")
       (simp_all add: trial_Exits_0 trial_Exits_nonzero trial_stderr_held tally_def
          success_durations_def)
next
  case Hangs
  then show ?thesis
    by (simp add: trial_Hangs tally_def success_durations_def)
qed simp

lemma spec_count_kind: "spec_count a acc = spec_count b acc \<Longrightarrow> kind_of a = kind_of b"
  by (cases a; cases b)
     (auto dest: arg_cong [of _ _ success_count] arg_cong [of _ _ fail_count]
        arg_cong [of _ _ deadlock_count])

text \<open>
  C2, as stated, fails: the call reads the child's standard error through a pipe, so it
  comes back only when that pipe is at its end. A child that ends at once with status 0
  and leaves a descendant that keeps the standard error open beyond the limit makes
  \<^verbatim>\<open>subprocess.run\<close> raise \<^verbatim>\<open>TimeoutExpired\<close>: the trial is counted as a deadlock.
\<close>

theorem trial_lingering_descendant:
  "lingering (length (calls w_init)) = Exits 0 (Finite (1 / 4)) False True
   \<and> fst (trial lingering 5 2 acc0 w_init) = Return (spec_count TimeoutDeadlock acc0)
   \<and> fst (trial lingering 5 2 acc0 w_init) \<noteq> Return (spec_count (Success (Finite (1 / 4))) acc0)
   \<and> stdout (snd (trial lingering 5 2 acc0 w_init)) = [Mark CHR ''D'']
   \<and> killed (snd (trial lingering 5 2 acc0 w_init)) = []"
proof -
  have l: "lingering (length (calls w_init)) = Exits 0 (Finite (1 / 4)) False True"
    by (simp add: lingering_def)
  show ?thesis
    unfolding trial_stderr_held [of lingering w_init, OF l]
    by (simp add: lingering_def w_init_def acc0_def)
qed

text \<open>
  C2, amended. A trial whose child was started is classified into exactly one of the
  three outcomes, by what \<^verbatim>\<open>subprocess.run\<close> does. When the call comes back inside the
  limit, that is when the child has ended and nothing keeps its standard error open, the
  trial is a Success with the measured duration for status 0 (mark \<open>.\<close>) and a
  RuntimeError for any other status (mark \<open>E\<close>). When the limit passes first the trial
  is a TimeoutDeadlock (mark \<open>D\<close>): either the child is still running, and then it is
  killed, or it has ended and a descendant keeps its standard error open, and then
  nothing is killed.
\<close>

theorem trial_classified:
  assumes "orc (length (calls w)) \<noteq> NoSpawn"
  shows "(\<exists>!k. \<exists>oc. kind_of oc = k \<and> fst (trial orc tmo u acc w) = Return (spec_count oc acc))
     \<and> (\<forall>d out_held. orc (length (calls w)) = Exits 0 d out_held False \<longrightarrow>
            trial orc tmo u acc w =
              (Return (spec_count (Success d) acc),
               w\<lparr>calls := calls w @ [trial_invocation tmo u w],
                 stdout := stdout w @ [Mark CHR ''.'']\<rparr>))
     \<and> (\<forall>rc d out_held. orc (length (calls w)) = Exits rc d out_held False \<and> rc \<noteq> 0 \<longrightarrow>
            trial orc tmo u acc w =
              (Return (spec_count RuntimeError acc),
               w\<lparr>calls := calls w @ [trial_invocation tmo u w],
                 stdout := stdout w @ [Mark CHR ''E'']\<rparr>))
     \<and> (orc (length (calls w)) = Hangs \<longrightarrow>
            trial orc tmo u acc w =
              (Return (spec_count TimeoutDeadlock acc),
               w\<lparr>calls := calls w @ [trial_invocation tmo u w],
                 stdout := stdout w @ [Mark CHR ''D''],
                 killed := killed w @ [length (calls w)]\<rparr>))
     \<and> (\<forall>rc d out_held. orc (length (calls w)) = Exits rc d out_held True \<longrightarrow>
            trial orc tmo u acc w =
              (Return (spec_count TimeoutDeadlock acc),
               w\<lparr>calls := calls w @ [trial_invocation tmo u w],
                 stdout := stdout w @ [Mark CHR ''D'']\<rparr>))"
proof -
  have "\<exists>oc. fst (trial orc tmo u acc w) = Return (spec_count oc acc)"
  proof (cases "orc (length (calls w))")
    case (Exits rc d out_held err_held)
    show ?thesis
    proof (cases err_held)
      case True
      with Exits have "fst (trial orc tmo u acc w) = Return (spec_count TimeoutDeadlock acc)"
        by (simp add: trial_stderr_held del: spec_count.simps)
      then show ?thesis by blast
    next
      case False
      show ?thesis
      proof (cases "rc = 0")
        case True
        with Exits False
        have "fst (trial orc tmo u acc w) = Return (spec_count (Success d) acc)"
          by (simp add: trial_Exits_0 del: spec_count.simps)
        then show ?thesis by blast
      next
        case nz: False
        with Exits False
        have "fst (trial orc tmo u acc w) = Return (spec_count RuntimeError acc)"
          by (simp add: trial_Exits_nonzero del: spec_count.simps)
        then show ?thesis by blast
      qed
    qed
  next
    case Hangs
    then have "fst (trial orc tmo u acc w) = Return (spec_count TimeoutDeadlock acc)"
      by (simp add: trial_Hangs del: spec_count.simps)
    then show ?thesis by blast
  next
    case NoSpawn
    with assms show ?thesis by simp
  qed
  then obtain oc where oc: "fst (trial orc tmo u acc w) = Return (spec_count oc acc)" ..
  have "\<exists>!k. \<exists>oc. kind_of oc = k \<and> fst (trial orc tmo u acc w) = Return (spec_count oc acc)"
  proof (rule ex1I [of _ "kind_of oc"])
    show "\<exists>oc'. kind_of oc' = kind_of oc
        \<and> fst (trial orc tmo u acc w) = Return (spec_count oc' acc)"
      using oc by blast
  next
    fix k
    assume "\<exists>oc'. kind_of oc' = k \<and> fst (trial orc tmo u acc w) = Return (spec_count oc' acc)"
    then obtain oc' where k: "kind_of oc' = k"
      and "fst (trial orc tmo u acc w) = Return (spec_count oc' acc)"
      by blast
    with oc have "spec_count oc' acc = spec_count oc acc" by simp
    then have "kind_of oc' = kind_of oc" by (rule spec_count_kind)
    with k show "k = kind_of oc" by simp
  qed
  then show ?thesis
    by (simp add: trial_Exits_0 trial_Exits_nonzero trial_Hangs trial_stderr_held
        del: spec_count.simps)
qed

theorem trial_classified_witness:
  "fst (trial mixed 5 2 acc0 w_init) = Return (spec_count (Success (Finite (1 / 4))) acc0)
   \<and> stdout (snd (trial mixed 5 2 acc0 w_init)) = [Mark CHR ''.'']
   \<and> fst (trial always_crash 5 2 acc0 w_init) = Return (spec_count RuntimeError acc0)
   \<and> stdout (snd (trial always_crash 5 2 acc0 w_init)) = [Mark CHR ''E'']
   \<and> fst (trial shuffled 5 2 acc0 w_init) = Return (spec_count TimeoutDeadlock acc0)
   \<and> stdout (snd (trial shuffled 5 2 acc0 w_init)) = [Mark CHR ''D'']
   \<and> killed (snd (trial shuffled 5 2 acc0 w_init)) = [0]
   \<and> fst (trial lingering 5 2 acc0 w_init) = Return (spec_count TimeoutDeadlock acc0)
   \<and> killed (snd (trial lingering 5 2 acc0 w_init)) = []"
proof -
  have m: "mixed (length (calls w_init)) = Exits 0 (Finite (1 / 4)) False False"
    and c: "always_crash (length (calls w_init)) = Exits 1 (Finite 100) False False"
    and s: "shuffled (length (calls w_init)) = Hangs"
    and l: "lingering (length (calls w_init)) = Exits 0 (Finite (1 / 4)) False True"
    by (simp_all add: mixed_def always_crash_def shuffled_def lingering_def w_init_def)
  have "mixed (length (calls w_init)) \<noteq> NoSpawn" by (simp add: m)
  with trial_classified [of mixed w_init 5 2 acc0] m
  have a: "trial mixed 5 2 acc0 w_init =
      (Return (spec_count (Success (Finite (1 / 4))) acc0),
       w_init\<lparr>calls := calls w_init @ [trial_invocation 5 2 w_init],
         stdout := stdout w_init @ [Mark CHR ''.'']\<rparr>)"
    by blast
  have "always_crash (length (calls w_init)) \<noteq> NoSpawn" by (simp add: c)
  with trial_classified [of always_crash w_init 5 2 acc0] c
  have b: "trial always_crash 5 2 acc0 w_init =
      (Return (spec_count RuntimeError acc0),
       w_init\<lparr>calls := calls w_init @ [trial_invocation 5 2 w_init],
         stdout := stdout w_init @ [Mark CHR ''E'']\<rparr>)"
    by (metis zero_neq_one)
  have "shuffled (length (calls w_init)) \<noteq> NoSpawn" by (simp add: s)
  with trial_classified [of shuffled w_init 5 2 acc0] s
  have d: "trial shuffled 5 2 acc0 w_init =
      (Return (spec_count TimeoutDeadlock acc0),
       w_init\<lparr>calls := calls w_init @ [trial_invocation 5 2 w_init],
         stdout := stdout w_init @ [Mark CHR ''D''],
         killed := killed w_init @ [length (calls w_init)]\<rparr>)"
    by blast
  have "lingering (length (calls w_init)) \<noteq> NoSpawn" by (simp add: l)
  with trial_classified [of lingering w_init 5 2 acc0] l
  have e: "trial lingering 5 2 acc0 w_init =
      (Return (spec_count TimeoutDeadlock acc0),
       w_init\<lparr>calls := calls w_init @ [trial_invocation 5 2 w_init],
         stdout := stdout w_init @ [Mark CHR ''D'']\<rparr>)"
    by blast
  show ?thesis
    unfolding a b d e by (simp add: w_init_def)
qed

section \<open>The trials of one scenario\<close>

lemma tally_Cons: "tally cs (tally [c] acc) = tally (c # cs) acc"
  by (simp add: tally_def success_durations_def)

lemma kills_first: "kills k [c] @ kills (Suc k) cs = kills k (c # cs)"
  by simp

lemma trials_spawned:
  "NoSpawn \<notin> set (upcoming orc w n) \<Longrightarrow>
   trials orc tmo u n acc w =
     (Return (tally (upcoming orc w n) acc),
      w\<lparr>calls := calls w @ replicate n (trial_invocation tmo u w),
        stdout := stdout w @ map mark (upcoming orc w n),
        killed := killed w @ kills (length (calls w)) (upcoming orc w n)\<rparr>)"
proof (induction n arbitrary: acc w)
  case 0
  then show ?case by (simp add: tally_def success_durations_def)
next
  case (Suc n)
  let ?c = "orc (length (calls w))"
  let ?w = "w\<lparr>calls := calls w @ [trial_invocation tmo u w], stdout := stdout w @ [mark ?c],
              killed := killed w @ kills (length (calls w)) [?c]\<rparr>"
  have up: "upcoming orc w (Suc n) = ?c # upcoming orc ?w n"
    by (rule upcoming_Suc) simp
  from Suc.prems up have c: "?c \<noteq> NoSpawn" and rest: "NoSpawn \<notin> set (upcoming orc ?w n)"
    by auto
  have inv: "trial_invocation tmo u ?w = trial_invocation tmo u w"
    by (simp add: trial_invocation_def)
  have step: "trial orc tmo u acc w = (Return (tally [?c] acc), ?w)"
    using c by (rule trial_spawned [of orc w])
  show ?case
    by (simp add: step bind_py_def Suc.IH [OF rest] up tally_Cons inv kills_first
        del: kills.simps)
qed

lemma trials_no_spawn:
  "NoSpawn \<in> set (upcoming orc w n) \<Longrightarrow> fst (trials orc tmo u n acc w) = Raise OSError"
proof (induction n arbitrary: acc w)
  case 0
  then show ?case by simp
next
  case (Suc n)
  let ?c = "orc (length (calls w))"
  let ?w = "w\<lparr>calls := calls w @ [trial_invocation tmo u w], stdout := stdout w @ [mark ?c],
              killed := killed w @ kills (length (calls w)) [?c]\<rparr>"
  have up: "upcoming orc w (Suc n) = ?c # upcoming orc ?w n"
    by (rule upcoming_Suc) simp
  show ?case
  proof (cases "?c = NoSpawn")
    case True
    then show ?thesis by (simp add: trial_no_spawn bind_py_def)
  next
    case False
    then have step: "trial orc tmo u acc w = (Return (tally [?c] acc), ?w)"
      by (rule trial_spawned [of orc w])
    from False Suc.prems up have "NoSpawn \<in> set (upcoming orc ?w n)" by auto
    then show ?thesis by (simp add: step bind_py_def Suc.IH del: kills.simps)
  qed
qed

text \<open>
  When the child of the call number \<open>j\<close> of the loop is the first that cannot be started,
  the loop ends there: that call is the last one made.
\<close>

lemma trials_abort:
  "j < n \<Longrightarrow> NoSpawn \<notin> set (upcoming orc w j) \<Longrightarrow> orc (length (calls w) + j) = NoSpawn \<Longrightarrow>
   trials orc tmo u n acc w =
     (Raise OSError,
      w\<lparr>calls := calls w @ replicate (Suc j) (trial_invocation tmo u w),
        stdout := stdout w @ map mark (upcoming orc w j),
        killed := killed w @ kills (length (calls w)) (upcoming orc w j)\<rparr>)"
proof (induction n arbitrary: j acc w)
  case 0
  then show ?case by simp
next
  case (Suc n)
  let ?c = "orc (length (calls w))"
  show ?case
  proof (cases j)
    case 0
    with Suc.prems(3) have "?c = NoSpawn" by simp
    then show ?thesis
      by (simp add: 0 trial_no_spawn bind_py_def)
  next
    case (Suc i)
    let ?w = "w\<lparr>calls := calls w @ [trial_invocation tmo u w], stdout := stdout w @ [mark ?c],
                killed := killed w @ kills (length (calls w)) [?c]\<rparr>"
    have up: "upcoming orc w (Suc i) = ?c # upcoming orc ?w i"
      by (rule upcoming_Suc) simp
    from Suc.prems(2) up Suc have c: "?c \<noteq> NoSpawn"
      and rest: "NoSpawn \<notin> set (upcoming orc ?w i)"
      by auto
    have inv: "trial_invocation tmo u ?w = trial_invocation tmo u w"
      by (simp add: trial_invocation_def)
    have step: "trial orc tmo u acc w = (Return (tally [?c] acc), ?w)"
      using c by (rule trial_spawned [of orc w])
    from Suc.prems(1) Suc have i: "i < n" by simp
    from Suc.prems(3) Suc have "orc (length (calls ?w) + i) = NoSpawn" by simp
    from Suc.IH [OF i rest this] show ?thesis
      by (simp add: Suc step bind_py_def up inv kills_first del: kills.simps)
  qed
qed

lemma run_scenario_spawned:
  "NoSpawn \<notin> set (upcoming orc w n) \<Longrightarrow>
   run_scenario orc tmo n sc w =
     (finish (scenario_users sc) (tally (upcoming orc w n) acc0),
      w\<lparr>calls := calls w @ replicate n (trial_invocation tmo (scenario_users sc) w),
        stdout := stdout w @ map mark (upcoming orc w n),
        killed := killed w @ kills (length (calls w)) (upcoming orc w n)\<rparr>)"
  by (simp add: run_scenario_def trials_spawned bind_py_def)

lemma run_scenario_no_spawn:
  "NoSpawn \<in> set (upcoming orc w n) \<Longrightarrow> fst (run_scenario orc tmo n sc w) = Raise OSError"
  using trials_no_spawn [of orc w n tmo "scenario_users sc" acc0]
  by (cases "trials orc tmo (scenario_users sc) n acc0 w") (simp add: run_scenario_def bind_py_def)

lemma run_scenario_abort:
  "j < n \<Longrightarrow> NoSpawn \<notin> set (upcoming orc w j) \<Longrightarrow> orc (length (calls w) + j) = NoSpawn \<Longrightarrow>
   run_scenario orc tmo n sc w =
     (Raise OSError,
      w\<lparr>calls := calls w @ replicate (Suc j) (trial_invocation tmo (scenario_users sc) w),
        stdout := stdout w @ map mark (upcoming orc w j),
        killed := killed w @ kills (length (calls w)) (upcoming orc w j)\<rparr>)"
  by (simp add: run_scenario_def trials_abort bind_py_def)

lemma run_scenario_fst:
  "fst (run_scenario orc tmo n sc w) =
     (if NoSpawn \<in> set (upcoming orc w n) then Raise OSError
      else finish (scenario_users sc) (tally (upcoming orc w n) acc0))"
  by (simp add: run_scenario_no_spawn run_scenario_spawned)

lemma finish_Return:
  assumes "finish u acc = Return item"
  obtains a where "final_avg acc = Inr a" and "item = statistics u acc a"
  using assms by (auto simp: finish_def split: sum.splits)

lemma run_scenario_Return:
  assumes "fst (run_scenario orc tmo n sc w) = Return item"
  obtains a where "NoSpawn \<notin> set (upcoming orc w n)"
    and "final_avg (tally (upcoming orc w n) acc0) = Inr a"
    and "item = statistics (scenario_users sc) (tally (upcoming orc w n) acc0) a"
proof -
  from assms have ns: "NoSpawn \<notin> set (upcoming orc w n)"
    by (simp add: run_scenario_fst split: if_splits)
  with assms have "finish (scenario_users sc) (tally (upcoming orc w n) acc0) = Return item"
    by (simp add: run_scenario_fst)
  then obtain a where "final_avg (tally (upcoming orc w n) acc0) = Inr a"
    and "item = statistics (scenario_users sc) (tally (upcoming orc w n) acc0) a"
    by (rule finish_Return)
  with ns show ?thesis by (rule that)
qed

lemma run_scenario_Return_world:
  assumes "run_scenario orc tmo n sc w = (Return item, w1)"
  shows "users item = scenario_users sc"
    and "calls w1 = calls w @ replicate n (trial_invocation tmo (scenario_users sc) w)"
    and "environ w1 = environ w"
    and "stdout w1 = stdout w @ map mark (upcoming orc w n)"
proof -
  from assms have r: "fst (run_scenario orc tmo n sc w) = Return item" by simp
  then obtain a where ns: "NoSpawn \<notin> set (upcoming orc w n)"
    and item: "item = statistics (scenario_users sc) (tally (upcoming orc w n) acc0) a"
    by (rule run_scenario_Return)
  from item show "users item = scenario_users sc"
    by (simp add: statistics_def)
  from assms run_scenario_spawned [OF ns, of tmo sc]
  show "calls w1 = calls w @ replicate n (trial_invocation tmo (scenario_users sc) w)"
    and "environ w1 = environ w"
    and "stdout w1 = stdout w @ map mark (upcoming orc w n)"
    by auto
qed

lemma partition_spawned:
  "NoSpawn \<notin> set cs \<Longrightarrow>
   length (filter is_success cs) + length (filter is_failure cs)
     + length (filter is_deadlock cs) = length cs"
proof (induction cs)
  case Nil
  then show ?case by simp
next
  case (Cons c cs)
  then show ?case by (cases c) auto
qed

lemma run_scenario_sum:
  assumes "fst (run_scenario orc tmo n sc w) = Return item"
  shows "success item + fails item + deadlocks item = int n"
proof -
  let ?cs = "upcoming orc w n"
  from assms obtain a where ns: "NoSpawn \<notin> set ?cs"
    and item: "item = statistics (scenario_users sc) (tally ?cs acc0) a"
    by (rule run_scenario_Return)
  have "int (length (filter is_success ?cs)) + int (length (filter is_failure ?cs))
      + int (length (filter is_deadlock ?cs)) = int (length ?cs)"
    using partition_spawned [OF ns] by linarith
  then show ?thesis
    by (simp add: item statistics_def tally_def acc0_def)
qed

lemma tally_success_small:
  assumes "length cs < 2 ^ 53"
  shows "success_count (tally cs acc0) < 2 ^ 53"
proof -
  have "length (filter is_success cs) \<le> length cs" by simp
  from this assms have "length (filter is_success cs) < 2 ^ 53" by (rule le_less_trans)
  then have "int (length (filter is_success cs)) < int (2 ^ 53)" by (simp only: of_nat_less_iff)
  then show ?thesis by (simp add: tally_def acc0_def)
qed

text \<open>With fewer than \<open>2 ^ 53\<close> trials the division after the loop does not raise.\<close>

lemma run_scenario_completes:
  assumes "NoSpawn \<notin> set (upcoming orc w n)" and "n < 2 ^ 53"
  shows "\<exists>item. run_scenario orc tmo n sc w =
     (Return item,
      w\<lparr>calls := calls w @ replicate n (trial_invocation tmo (scenario_users sc) w),
        stdout := stdout w @ map mark (upcoming orc w n),
        killed := killed w @ kills (length (calls w)) (upcoming orc w n)\<rparr>)"
proof -
  have "success_count (tally (upcoming orc w n) acc0) < 2 ^ 53"
    by (rule tally_success_small) (use assms(2) in simp)
  from finish_small [OF this, of "scenario_users sc"] show ?thesis
    by (auto simp: run_scenario_spawned [OF assms(1)])
qed

section \<open>The battery\<close>

lemma scenario_loop_all:
  assumes "fst (scenario_loop orc tmo n scs summary w) = Return res"
    and "\<forall>item\<in>set summary. P item"
    and "\<And>sc w item. fst (run_scenario orc tmo n sc w) = Return item \<Longrightarrow> P item"
  shows "\<forall>item\<in>set res. P item"
  using assms(1,2)
proof (induction scs arbitrary: summary w)
  case Nil
  then show ?case by simp
next
  case (Cons sc scs)
  obtain r w1 where r: "run_scenario orc tmo n sc w = (r, w1)"
    by (cases "run_scenario orc tmo n sc w")
  show ?case
  proof (cases r)
    case (Return item)
    with r have "P item" using assms(3) [of sc w item] by simp
    with Cons.prems(2) have "\<forall>x\<in>set (summary @ [item]). P x" by simp
    moreover from Cons.prems(1) r Return
    have "fst (scenario_loop orc tmo n scs (summary @ [item]) w1) = Return res"
      by (simp add: bind_py_def)
    ultimately show ?thesis by (rule Cons.IH [rotated])
  qed (use Cons.prems(1) r in \<open>simp_all add: bind_py_def\<close>)
qed

lemma run_stress_test_counters_nonneg:
  assumes "fst (run_stress_test orc w) = Return summary"
  shows "\<forall>s\<in>set summary. 0 \<le> deadlocks s \<and> 0 \<le> fails s"
  using assms unfolding run_stress_test_def run_battery_def
proof (rule scenario_loop_all)
  show "\<forall>item\<in>set []. 0 \<le> deadlocks item \<and> 0 \<le> fails item" by simp
next
  fix sc v item
  assume "fst (run_scenario orc TIMEOUT_SECONDS NUM_RUNS sc v) = Return item"
  then obtain a
    where "item = statistics (scenario_users sc) (tally (upcoming orc v NUM_RUNS) acc0) a"
    by (rule run_scenario_Return)
  then show "0 \<le> deadlocks item \<and> 0 \<le> fails item"
    by (simp add: statistics_def tally_def acc0_def)
qed

text \<open>
  C3. Whenever a scenario's trials all complete, its three counters add up to the number
  of trials; so does every entry of the summary of a battery, and with the constants of
  the module the sum is 30.
\<close>

theorem counters_sum_to_trial_count:
  "(fst (run_scenario orc tmo n sc w) = Return item \<longrightarrow>
      success item + fails item + deadlocks item = int n)
   \<and> (fst (run_battery orc scs n tmo w) = Return summary \<longrightarrow>
      (\<forall>item\<in>set summary. success item + fails item + deadlocks item = int n))
   \<and> (fst (run_stress_test orc w) = Return summary \<longrightarrow>
      (\<forall>item\<in>set summary. success item + fails item + deadlocks item = 30))"
proof -
  have "\<forall>item\<in>set res. success item + fails item + deadlocks item = int m"
    if "fst (run_battery orc l m t w) = Return res" for res l m t
    using that unfolding run_battery_def
    by (rule scenario_loop_all) (simp_all add: run_scenario_sum)
  then show ?thesis
    by (auto simp: run_scenario_sum run_stress_test_def NUM_RUNS_def)
qed

lemma upcoming_mixed:
  "upcoming mixed w_init 4 =
     [Exits 0 (Finite (1 / 4)) False False, Exits 1 (Finite 100) False False, Hangs,
      Exits 0 (Finite (3 / 4)) False False]"
  by (simp add: upcoming_def w_init_def mixed_def upt_conv_Cons)

lemma upcoming_shuffled:
  "upcoming shuffled w_init 4 =
     [Hangs, Exits 0 (Finite (3 / 4)) False False, Exits 0 (Finite (1 / 4)) False False,
      Exits 1 (Finite 100) False False]"
  by (simp add: upcoming_def w_init_def shuffled_def upt_conv_Cons)

lemma upcoming_always_ok:
  "upcoming always_ok w n = replicate n (Exits 0 (Finite (1 / 4)) False False)"
  by (simp add: upcoming_def list_eq_iff_nth_eq always_ok_def)


lemma kills_none: "Hangs \<notin> set cs \<Longrightarrow> kills k cs = []"
  by (induction cs arbitrary: k) auto

lemma run_scenario_mixed:
  "fst (run_scenario mixed 5 4 sc2 w_init) =
     Return \<lparr>users = 2, success = 2, fails = 1, deadlocks = 1, avg_time = Finite (1 / 2)\<rparr>"
  by (simp add: run_scenario_fst upcoming_mixed tally_def success_durations_def finish_def
      final_avg_def float_truediv_int_def float_of_int_values float_result_values
      statistics_def acc0_def sc2_def)

lemma run_scenario_shuffled:
  "fst (run_scenario shuffled 5 4 sc2 w_init) =
     Return \<lparr>users = 2, success = 2, fails = 1, deadlocks = 1, avg_time = Finite (1 / 2)\<rparr>"
  by (simp add: run_scenario_fst upcoming_shuffled tally_def success_durations_def finish_def
      final_avg_def float_truediv_int_def float_of_int_values float_result_values
      statistics_def acc0_def sc2_def)


lemma thirty_quarters:
  "foldl float_add (Finite 0) (replicate 30 (Finite (1 / 4))) = Finite (30 / 4)"
proof -
  have "exact_sums (real 0 / 4) (replicate 30 (1 / 4))"
    by (rule exact_sums_quarters) simp
  then have "exact_sums 0 (replicate 30 (1 / 4))" by simp
  from foldl_float_add_exact [OF this] show ?thesis
    by (simp add: sum_list_replicate)
qed

lemma run_scenario_always_ok:
  "run_scenario always_ok tmo 30 sc w =
     (Return \<lparr>users = scenario_users sc, success = 30, fails = 0, deadlocks = 0,
              avg_time = Finite (1 / 4)\<rparr>,
      w\<lparr>calls := calls w @ replicate 30 (trial_invocation tmo (scenario_users sc) w),
        stdout := stdout w @ replicate 30 (Mark CHR ''.'')\<rparr>)"
proof -
  have "NoSpawn \<notin> set (upcoming always_ok w 30)"
    by (simp add: upcoming_always_ok)
  from run_scenario_spawned [OF this] show ?thesis
    by (simp add: upcoming_always_ok tally_def success_durations_def finish_def final_avg_def
        float_truediv_int_def float_of_int_values float_result_values statistics_def acc0_def
        thirty_quarters kills_none)
qed

lemma run_stress_test_always_ok: "fst (run_stress_test always_ok w_init) = Return ok_summary"
  by (simp add: run_stress_test_def run_battery_def SCENARIOS_def NUM_RUNS_def
      run_scenario_always_ok bind_py_def ok_summary_def)

theorem counters_sum_to_trial_count_witness:
  "fst (run_scenario mixed 5 4 sc2 w_init) =
     Return \<lparr>users = 2, success = 2, fails = 1, deadlocks = 1, avg_time = Finite (1 / 2)\<rparr>
   \<and> (2::int) + 1 + 1 = int 4
   \<and> fst (run_stress_test always_ok w_init) = Return ok_summary
   \<and> list_all (\<lambda>item. success item + fails item + deadlocks item = 30) ok_summary"
  using counters_sum_to_trial_count [where orc = mixed and tmo = 5 and n = 4 and sc = sc2
      and w = w_init
      and item = "\<lparr>users = 2, success = 2, fails = 1, deadlocks = 1, avg_time = Finite (1 / 2)\<rparr>"]
    counters_sum_to_trial_count [where orc = always_ok and w = w_init and summary = ok_summary]
  by (simp add: run_scenario_mixed run_stress_test_always_ok list_all_iff)

section \<open>The average duration\<close>








section \<open>The order of the outcomes\<close>

lemma length_filter_mset:
  assumes "mset cs = mset cs'"
  shows "length (filter P cs) = length (filter P cs')"
proof -
  have "mset (filter P cs) = mset (filter P cs')"
    by (simp add: assms)
  then show ?thesis by (rule mset_eq_length)
qed

lemma counted_finish:
  assumes "success_count acc = success_count acc'"
    and "fail_count acc = fail_count acc'"
    and "deadlock_count acc = deadlock_count acc'"
  shows "counted (finish u acc) = counted (finish u acc')"
  using assms
  by (auto simp: finish_def final_avg_def float_truediv_int_def statistics_def counters_def
      split: sum.splits)

lemma sum_list_finite_values: "sum_list (map finite_value (map Finite xs)) = sum_list xs"
  by (induction xs) simp_all

lemma upcoming_ascending:
  "upcoming ascending w_init 3 =
     [Exits 0 (Finite d01) False False, Exits 0 (Finite d02) False False,
      Exits 0 (Finite d03) False False]"
  by (simp add: upcoming_def w_init_def ascending_def upt_conv_Cons)

lemma upcoming_descending:
  "upcoming descending w_init 3 =
     [Exits 0 (Finite d03) False False, Exits 0 (Finite d02) False False,
      Exits 0 (Finite d01) False False]"
  by (simp add: upcoming_def w_init_def descending_def upt_conv_Cons)

text \<open>
  C9, as claimed, fails on Python floats. Successes whose measured durations are the
  doubles 0.1, 0.2 and 0.3 give the average 0.20000000000000004; the same three in the
  order 0.3, 0.2, 0.1 give 0.19999999999999998.
\<close>

theorem average_depends_on_order:
  "float_result d01 = Finite d01 \<and> float_result d02 = Finite d02
   \<and> float_result d03 = Finite d03
   \<and> mset (upcoming ascending w_init 3) = mset (upcoming descending w_init 3)
   \<and> fst (run_scenario ascending 5 3 sc2 w_init) =
       Return \<lparr>users = 2, success = 3, fails = 0, deadlocks = 0, avg_time = Finite d02_up\<rparr>
   \<and> fst (run_scenario descending 5 3 sc2 w_init) =
       Return \<lparr>users = 2, success = 3, fails = 0, deadlocks = 0, avg_time = Finite d02_down\<rparr>
   \<and> d02_down < d02_up"
proof -
  have "mset (upcoming ascending w_init 3) = mset (upcoming descending w_init 3)"
    by (simp add: upcoming_ascending upcoming_descending)
  moreover have "fst (run_scenario ascending 5 3 sc2 w_init) =
       Return \<lparr>users = 2, success = 3, fails = 0, deadlocks = 0, avg_time = Finite d02_up\<rparr>"
    by (simp add: run_scenario_fst upcoming_ascending tally_def success_durations_def
        finish_def final_avg_def float_truediv_int_def float_of_int_values steady_sums
        ascending_sums statistics_def acc0_def sc2_def)
  moreover have "fst (run_scenario descending 5 3 sc2 w_init) =
       Return \<lparr>users = 2, success = 3, fails = 0, deadlocks = 0, avg_time = Finite d02_down\<rparr>"
    by (simp add: run_scenario_fst upcoming_descending tally_def success_durations_def
        finish_def final_avg_def float_truediv_int_def float_of_int_values descending_sums
        statistics_def acc0_def sc2_def)
  moreover have "d02_down < d02_up"
    by (simp add: d02_down_def d02_up_def)
  ultimately show ?thesis by (simp add: doubles)
qed

text \<open>
  C9, amended. What a scenario's loop returns (its dictionary, or the exception that ends
  it) is a function of the sequence of outcomes it meets: the same sequence gives the same
  counts and the same average, whatever the oracle and the state it comes from. A
  permutation of the sequence gives the same counts, and the same exception if any. It
  gives the same average too when no addition of either float sum of the success
  durations rounds.
\<close>

theorem aggregation_order:
  "(upcoming orc w n = upcoming orc' w' n \<longrightarrow>
      fst (run_scenario orc tmo n sc w) = fst (run_scenario orc' tmo n sc w'))
   \<and> (mset (upcoming orc w n) = mset (upcoming orc' w' n) \<longrightarrow>
      counted (fst (run_scenario orc tmo n sc w)) = counted (fst (run_scenario orc' tmo n sc w')))
   \<and> (mset (upcoming orc w n) = mset (upcoming orc' w' n)
      \<and> success_durations (upcoming orc w n) = map Finite xs
      \<and> success_durations (upcoming orc' w' n) = map Finite xs'
      \<and> exact_sums 0 xs \<and> exact_sums 0 xs' \<longrightarrow>
      fst (run_scenario orc tmo n sc w) = fst (run_scenario orc' tmo n sc w'))"
proof -
  let ?cs = "upcoming orc w n" and ?cs' = "upcoming orc' w' n"
  have same: "fst (run_scenario orc tmo n sc w) = fst (run_scenario orc' tmo n sc w')"
    if "?cs = ?cs'"
    using that by (simp add: run_scenario_fst)
  have counts: "counted (fst (run_scenario orc tmo n sc w))
      = counted (fst (run_scenario orc' tmo n sc w'))"
    if eq: "mset ?cs = mset ?cs'"
  proof -
    from eq have "set ?cs = set ?cs'" by (rule mset_eq_setD)
    moreover have "counted (finish (scenario_users sc) (tally ?cs acc0))
        = counted (finish (scenario_users sc) (tally ?cs' acc0))"
      by (rule counted_finish) (simp_all add: tally_def length_filter_mset [OF eq])
    ultimately show ?thesis by (simp add: run_scenario_fst)
  qed
  have exact: "fst (run_scenario orc tmo n sc w) = fst (run_scenario orc' tmo n sc w')"
    if eq: "mset ?cs = mset ?cs'"
      and ds: "success_durations ?cs = map Finite xs"
      and ds': "success_durations ?cs' = map Finite xs'"
      and ex: "exact_sums 0 xs" and ex': "exact_sums 0 xs'"
  proof -
    from eq have sets: "set ?cs = set ?cs'" by (rule mset_eq_setD)
    have "mset (success_durations ?cs) = mset (success_durations ?cs')"
      by (simp add: success_durations_def eq)
    then have "mset (map finite_value (success_durations ?cs))
        = mset (map finite_value (success_durations ?cs'))"
      by simp
    then have "sum_mset (mset (map finite_value (success_durations ?cs)))
        = sum_mset (mset (map finite_value (success_durations ?cs')))"
      by (rule arg_cong)
    then have "sum_list (map finite_value (success_durations ?cs))
        = sum_list (map finite_value (success_durations ?cs'))"
      by (simp only: sum_mset_sum_list)
    then have "sum_list xs = sum_list xs'"
      by (simp only: ds ds' sum_list_finite_values)
    then have "time_sum (tally ?cs acc0) = time_sum (tally ?cs' acc0)"
      by (simp add: tally_def acc0_def ds ds' foldl_float_add_exact [OF ex]
          foldl_float_add_exact [OF ex'])
    then have "tally ?cs acc0 = tally ?cs' acc0"
      by (simp add: tally_def length_filter_mset [OF eq])
    with sets show ?thesis by (simp add: run_scenario_fst)
  qed
  from same counts exact show ?thesis by blast
qed

theorem aggregation_order_witness:
  "upcoming always_ok w_init 30 = upcoming always_ok w_made 30
   \<and> fst (run_scenario always_ok 5 30 sc2 w_init) = fst (run_scenario always_ok 5 30 sc2 w_made)
   \<and> mset (upcoming mixed w_init 4) = mset (upcoming shuffled w_init 4)
   \<and> upcoming mixed w_init 4 \<noteq> upcoming shuffled w_init 4
   \<and> success_durations (upcoming mixed w_init 4) = map Finite [1 / 4, 3 / 4]
   \<and> success_durations (upcoming shuffled w_init 4) = map Finite [3 / 4, 1 / 4]
   \<and> exact_sums 0 [1 / 4, 3 / 4] \<and> exact_sums 0 [3 / 4, 1 / 4]
   \<and> counted (fst (run_scenario mixed 5 4 sc2 w_init))
       = counted (fst (run_scenario shuffled 5 4 sc2 w_init))
   \<and> fst (run_scenario mixed 5 4 sc2 w_init) = fst (run_scenario shuffled 5 4 sc2 w_init)"
proof -
  have same: "upcoming always_ok w_init 30 = upcoming always_ok w_made 30"
    by (simp add: upcoming_always_ok)
  have perm: "mset (upcoming mixed w_init 4) = mset (upcoming shuffled w_init 4)"
    and diff: "upcoming mixed w_init 4 \<noteq> upcoming shuffled w_init 4"
    and ds: "success_durations (upcoming mixed w_init 4) = map Finite [1 / 4, 3 / 4]"
    and ds': "success_durations (upcoming shuffled w_init 4) = map Finite [3 / 4, 1 / 4]"
    by (simp_all add: upcoming_mixed upcoming_shuffled success_durations_def)
  have ex: "exact_sums 0 [1 / 4, 3 / 4]" and ex': "exact_sums 0 [3 / 4, 1 / 4]"
    by (simp_all add: float_result_values)
  from aggregation_order [of always_ok w_init 30 always_ok w_made 5 sc2] same
  have a: "fst (run_scenario always_ok 5 30 sc2 w_init) = fst (run_scenario always_ok 5 30 sc2 w_made)"
    by blast
  from aggregation_order [of mixed w_init 4 shuffled w_init 5 sc2 "[1 / 4, 3 / 4]" "[3 / 4, 1 / 4]"]
    perm ds ds' ex ex'
  have b: "counted (fst (run_scenario mixed 5 4 sc2 w_init))
       = counted (fst (run_scenario shuffled 5 4 sc2 w_init))"
    and c: "fst (run_scenario mixed 5 4 sc2 w_init) = fst (run_scenario shuffled 5 4 sc2 w_init)"
    by blast+
  from same a perm diff ds ds' ex ex' b c show ?thesis by blast
qed

section \<open>The whole stress run\<close>

lemma trial_invocation_environ:
  "environ w' = environ w \<Longrightarrow> trial_invocation tmo u w' = trial_invocation tmo u w"
  by (simp add: trial_invocation_def)

lemma planned_environ: "environ w' = environ w \<Longrightarrow> planned scs n tmo w' = planned scs n tmo w"
  by (simp add: planned_def trial_invocation_def)

lemma planned_Cons:
  "planned (sc # scs) n tmo w =
     replicate n (trial_invocation tmo (scenario_users sc) w) @ planned scs n tmo w"
  by (simp add: planned_def)

lemma kills_append: "kills k (cs @ cs') = kills k cs @ kills (k + length cs) cs'"
  by (induction cs arbitrary: k) simp_all

lemma scenario_loop_Return:
  assumes "scenario_loop orc tmo n scs summary w = (Return res, w')"
  shows "map users res = map users summary @ map scenario_users scs
     \<and> calls w' = calls w @ planned scs n tmo w
     \<and> environ w' = environ w"
  using assms
proof (induction scs arbitrary: summary w)
  case Nil
  then show ?case by (simp add: planned_def)
next
  case (Cons sc scs)
  obtain r w1 where r: "run_scenario orc tmo n sc w = (r, w1)"
    by (cases "run_scenario orc tmo n sc w")
  show ?case
  proof (cases r)
    case (Return item)
    note w1 = run_scenario_Return_world [OF r [unfolded Return]]
    from Cons.prems r Return
    have "scenario_loop orc tmo n scs (summary @ [item]) w1 = (Return res, w')"
      by (simp add: bind_py_def)
    from Cons.IH [OF this] show ?thesis
      by (simp add: w1 planned_environ [OF w1(3)] planned_Cons)
  qed (use Cons.prems r in \<open>simp_all add: bind_py_def\<close>)
qed

lemma scenario_loop_spawned:
  "NoSpawn \<notin> set (upcoming orc w (length scs * n)) \<Longrightarrow> n < 2 ^ 53 \<Longrightarrow>
   \<exists>res w'. scenario_loop orc tmo n scs summary w = (Return res, w')"
proof (induction scs arbitrary: summary w)
  case Nil
  then show ?case by simp
next
  case (Cons sc scs)
  let ?w1 = "w\<lparr>calls := calls w @ replicate n (trial_invocation tmo (scenario_users sc) w),
               stdout := stdout w @ map mark (upcoming orc w n),
               killed := killed w @ kills (length (calls w)) (upcoming orc w n)\<rparr>"
  have split: "upcoming orc w (n + length scs * n) =
      upcoming orc w n @ upcoming orc ?w1 (length scs * n)"
    by (rule upcoming_add) simp
  with Cons.prems(1) have a: "NoSpawn \<notin> set (upcoming orc w n)"
    and b: "NoSpawn \<notin> set (upcoming orc ?w1 (length scs * n))"
    by auto
  from run_scenario_completes [OF a Cons.prems(2), of tmo sc]
  obtain item where item: "run_scenario orc tmo n sc w = (Return item, ?w1)" by blast
  show ?case
    using Cons.IH [OF b Cons.prems(2), of "summary @ [item]"] by (simp add: item bind_py_def)
qed

lemma scenario_loop_no_spawn:
  "NoSpawn \<in> set (upcoming orc w (length scs * n)) \<Longrightarrow> n < 2 ^ 53 \<Longrightarrow>
   fst (scenario_loop orc tmo n scs summary w) = Raise OSError"
proof (induction scs arbitrary: summary w)
  case Nil
  then show ?case by simp
next
  case (Cons sc scs)
  let ?w1 = "w\<lparr>calls := calls w @ replicate n (trial_invocation tmo (scenario_users sc) w),
               stdout := stdout w @ map mark (upcoming orc w n),
               killed := killed w @ kills (length (calls w)) (upcoming orc w n)\<rparr>"
  have split: "upcoming orc w (n + length scs * n) =
      upcoming orc w n @ upcoming orc ?w1 (length scs * n)"
    by (rule upcoming_add) simp
  show ?case
  proof (cases "NoSpawn \<in> set (upcoming orc w n)")
    case True
    from run_scenario_no_spawn [OF True, of tmo sc] show ?thesis
      by (cases "run_scenario orc tmo n sc w") (simp add: bind_py_def)
  next
    case False
    with Cons.prems(1) split have "NoSpawn \<in> set (upcoming orc ?w1 (length scs * n))"
      by auto
    from Cons.IH [OF this Cons.prems(2)] have
      rest: "fst (scenario_loop orc tmo n scs summary' ?w1) = Raise OSError" for summary' .
    from run_scenario_completes [OF False Cons.prems(2), of tmo sc]
    obtain item where item: "run_scenario orc tmo n sc w = (Return item, ?w1)" by blast
    show ?thesis
      by (simp add: item bind_py_def rest)
  qed
qed

text \<open>
  When the child of the call number \<open>j\<close> of the battery is the first that cannot be
  started, the battery ends there: that call is the last one made, and no scenario after
  it is begun.
\<close>

lemma scenario_loop_abort:
  "j < length scs * n \<Longrightarrow> NoSpawn \<notin> set (upcoming orc w j) \<Longrightarrow>
   orc (length (calls w) + j) = NoSpawn \<Longrightarrow> n < 2 ^ 53 \<Longrightarrow>
   scenario_loop orc tmo n scs summary w =
     (Raise OSError,
      w\<lparr>calls := calls w @ take (Suc j) (planned scs n tmo w),
        stdout := stdout w @ map mark (upcoming orc w j),
        killed := killed w @ kills (length (calls w)) (upcoming orc w j)\<rparr>)"
proof (induction scs arbitrary: j summary w)
  case Nil
  then show ?case by simp
next
  case (Cons sc scs)
  let ?iv = "trial_invocation tmo (scenario_users sc) w"
  show ?case
  proof (cases "j < n")
    case True
    then have "take (Suc j) (planned (sc # scs) n tmo w) = replicate (Suc j) ?iv"
      by (simp add: planned_Cons min_def del: replicate_Suc)
    with run_scenario_abort [OF True Cons.prems(2,3), of tmo sc] show ?thesis
      by (simp add: bind_py_def del: replicate_Suc)
  next
    case False
    define i where "i = j - n"
    with False have j: "j = n + i" by simp
    let ?w1 = "w\<lparr>calls := calls w @ replicate n ?iv,
                 stdout := stdout w @ map mark (upcoming orc w n),
                 killed := killed w @ kills (length (calls w)) (upcoming orc w n)\<rparr>"
    have split: "upcoming orc w (n + i) = upcoming orc w n @ upcoming orc ?w1 i"
      by (rule upcoming_add) simp
    with Cons.prems(2) j have a: "NoSpawn \<notin> set (upcoming orc w n)"
      and b: "NoSpawn \<notin> set (upcoming orc ?w1 i)"
      by auto
    from run_scenario_completes [OF a Cons.prems(4), of tmo sc]
    obtain item where item: "run_scenario orc tmo n sc w = (Return item, ?w1)" by blast
    from Cons.prems(1) j have i: "i < length scs * n" by simp
    from Cons.prems(3) j have c: "orc (length (calls ?w1) + i) = NoSpawn"
      by (simp add: add.assoc)
    have env: "environ ?w1 = environ w" by simp
    have tk: "take (Suc (n + i)) (planned (sc # scs) n tmo w) =
        replicate n ?iv @ take (Suc i) (planned scs n tmo w)"
      by (simp add: planned_Cons)
    from Cons.IH [OF i b c Cons.prems(4), of "summary @ [item]"] show ?thesis
      by (simp add: item bind_py_def planned_environ [OF env] tk j split kills_append)
  qed
qed

lemma str_values: "str 2 = ''2''" "str 3 = ''3''" "str 10 = ''10''" "str 50 = ''50''"
  by (simp_all add: str_def str_nat.simps)

text \<open>
  C6. A stress run that returns a summary has made, in this order, 30 calls of the binary
  for each of the degrees 2, 3, 10 and 50, each with the degree as its only argument and
  a time limit of 5 seconds, and its summary has exactly one entry per scenario, in the
  order of the declaration, whatever the children did. It returns a summary whenever
  each of the 120 children can be started.
\<close>

theorem stress_battery_fixed:
  "(run_stress_test orc w = (Return summary, w') \<longrightarrow>
      map users summary = [2, 3, 10, 50]
    \<and> calls w' = calls w @
        concat (map (\<lambda>a. replicate 30
           \<lparr>argv = [''./dining_hall'', a], child_env = environ w, timeout = Some 5,
            check = False, stdout_to = DEVNULL, stderr_to = PIPE\<rparr>)
         [''2'', ''3'', ''10'', ''50'']))
   \<and> (NoSpawn \<notin> set (upcoming orc w 120) \<longrightarrow>
        (\<exists>summary w'. run_stress_test orc w = (Return summary, w')))"
proof -
  have "\<exists>summary w'. run_stress_test orc w = (Return summary, w')"
    if "NoSpawn \<notin> set (upcoming orc w 120)"
    unfolding run_stress_test_def run_battery_def
    by (rule scenario_loop_spawned) (use that in \<open>simp_all add: SCENARIOS_def NUM_RUNS_def\<close>)
  moreover have "map users summary = [2, 3, 10, 50]
    \<and> calls w' = calls w @
        concat (map (\<lambda>a. replicate 30
           \<lparr>argv = [''./dining_hall'', a], child_env = environ w, timeout = Some 5,
            check = False, stdout_to = DEVNULL, stderr_to = PIPE\<rparr>)
         [''2'', ''3'', ''10'', ''50''])"
    if "run_stress_test orc w = (Return summary, w')"
    using scenario_loop_Return [OF that [unfolded run_stress_test_def run_battery_def]]
    by (simp add: SCENARIOS_def NUM_RUNS_def TIMEOUT_SECONDS_def trial_invocation_def
        BINARY_NAME_def str_values planned_def)
  ultimately show ?thesis by blast
qed

theorem stress_battery_fixed_witness:
  "fst (run_stress_test always_ok w_init) = Return ok_summary
   \<and> map users ok_summary = [2, 3, 10, 50]
   \<and> length (calls (snd (run_stress_test always_ok w_init))) = 120
   \<and> NoSpawn \<notin> set (upcoming always_ok w_init 120)"
  using stress_battery_fixed [of always_ok w_init ok_summary
      "snd (run_stress_test always_ok w_init)"]
    run_stress_test_always_ok
  by (cases "run_stress_test always_ok w_init")
     (simp add: upcoming_always_ok w_init_def ok_summary_def)

text \<open>
  C7. A child that cannot be started is no trial outcome: the body of the loop returns no
  counters and prints no mark, the exception leaves \<open>run_stress_test\<close> without a summary,
  and the script ends with exit status 1. The battery is not continued: when the child of
  the call number \<open>j\<close> is the first that cannot be started, the calls made are the first
  \<open>j + 1\<close> of the planned ones and no more, the marks printed are those of the \<open>j\<close>
  children before it, and this holds for the whole script after a successful compilation.
\<close>

theorem spawn_failure_aborts_run:
  "(orc (length (calls w)) = NoSpawn \<longrightarrow>
      trial orc tmo u acc w = (Raise OSError, w\<lparr>calls := calls w @ [trial_invocation tmo u w]\<rparr>))
   \<and> (NoSpawn \<in> set (upcoming orc w (length SCENARIOS * NUM_RUNS)) \<longrightarrow>
      fst (run_stress_test orc w) = Raise OSError)
   \<and> (check_compilation h orc w = (Return (), w1)
      \<and> NoSpawn \<in> set (upcoming orc w1 (length SCENARIOS * NUM_RUNS)) \<longrightarrow>
      fst (stress_main h orc w) = Raise OSError
    \<and> exit_status (fst (stress_main h orc w)) = Some 1)
   \<and> (j < length SCENARIOS * NUM_RUNS \<and> NoSpawn \<notin> set (upcoming orc w j)
      \<and> orc (length (calls w) + j) = NoSpawn \<longrightarrow>
      run_stress_test orc w =
        (Raise OSError,
         w\<lparr>calls := calls w @ take (Suc j) (planned SCENARIOS NUM_RUNS TIMEOUT_SECONDS w),
           stdout := stdout w @ map mark (upcoming orc w j),
           killed := killed w @ kills (length (calls w)) (upcoming orc w j)\<rparr>))
   \<and> (check_compilation h orc w = (Return (), w1)
      \<and> j < length SCENARIOS * NUM_RUNS \<and> NoSpawn \<notin> set (upcoming orc w1 j)
      \<and> orc (length (calls w1) + j) = NoSpawn \<longrightarrow>
      stress_main h orc w =
        (Raise OSError,
         w1\<lparr>calls := calls w1 @ take (Suc j) (planned SCENARIOS NUM_RUNS TIMEOUT_SECONDS w1),
            stdout := stdout w1 @ map mark (upcoming orc w1 j),
            killed := killed w1 @ kills (length (calls w1)) (upcoming orc w1 j)\<rparr>))"
proof -
  have small: "NUM_RUNS < 2 ^ 53" by (simp add: NUM_RUNS_def)
  have run: "fst (run_stress_test orc v) = Raise OSError"
    if "NoSpawn \<in> set (upcoming orc v (length SCENARIOS * NUM_RUNS))" for v
    unfolding run_stress_test_def run_battery_def
    using that small by (rule scenario_loop_no_spawn)
  have main: "fst (stress_main h orc w) = Raise OSError"
    if "check_compilation h orc w = (Return (), w1)"
      and "NoSpawn \<in> set (upcoming orc w1 (length SCENARIOS * NUM_RUNS))"
    using run [OF that(2)]
    by (cases "run_stress_test orc w1") (simp add: stress_main_def that(1) bind_py_def)
  have stop: "run_stress_test orc v =
        (Raise OSError,
         v\<lparr>calls := calls v @ take (Suc j) (planned SCENARIOS NUM_RUNS TIMEOUT_SECONDS v),
           stdout := stdout v @ map mark (upcoming orc v j),
           killed := killed v @ kills (length (calls v)) (upcoming orc v j)\<rparr>)"
    if "j < length SCENARIOS * NUM_RUNS" and "NoSpawn \<notin> set (upcoming orc v j)"
      and "orc (length (calls v) + j) = NoSpawn" for v
    unfolding run_stress_test_def run_battery_def
    using that small by (rule scenario_loop_abort)
  have main_stop: "stress_main h orc w =
        (Raise OSError,
         w1\<lparr>calls := calls w1 @ take (Suc j) (planned SCENARIOS NUM_RUNS TIMEOUT_SECONDS w1),
            stdout := stdout w1 @ map mark (upcoming orc w1 j),
            killed := killed w1 @ kills (length (calls w1)) (upcoming orc w1 j)\<rparr>)"
    if "check_compilation h orc w = (Return (), w1)"
      and "j < length SCENARIOS * NUM_RUNS" and "NoSpawn \<notin> set (upcoming orc w1 j)"
      and "orc (length (calls w1) + j) = NoSpawn"
    by (simp add: stress_main_def that(1) bind_py_def stop [OF that(2,3,4)])
  have one: "trial orc tmo u acc w =
      (Raise OSError, w\<lparr>calls := calls w @ [trial_invocation tmo u w]\<rparr>)"
    if "orc (length (calls w)) = NoSpawn"
    using that by (rule trial_no_spawn)
  have status: "exit_status (fst (stress_main h orc w)) = Some 1"
    if "check_compilation h orc w = (Return (), w1)"
      and "NoSpawn \<in> set (upcoming orc w1 (length SCENARIOS * NUM_RUNS))"
    by (simp add: main [OF that])
  from one run main status stop main_stop show ?thesis
    by blast
qed

lemma check_compilation_ok:
  "check_compilation host_ok binary_missing w_init = (Return (), w_made)"
  "check_compilation host_ok binary_lost w_init = (Return (), w_made)"
  by (simp_all add: check_compilation_def host_ok_def subprocess_run_def binary_missing_def
      binary_lost_def w_init_def w_made_def make_invocation_def waits_for_pipe_def)

lemma upcoming_binary_lost:
  "upcoming binary_lost w_made 3 =
     [Exits 0 (Finite 1) False False, Exits 0 (Finite 1) False False,
      Exits 0 (Finite 1) False False]"
  by (simp add: upcoming_def w_made_def binary_lost_def upt_conv_Cons)

lemma first_planned:
  "take (Suc 3) (planned SCENARIOS NUM_RUNS TIMEOUT_SECONDS w) =
     replicate 4 (trial_invocation 5 2 w)"
  "take (Suc 0) (planned SCENARIOS NUM_RUNS TIMEOUT_SECONDS w) = [trial_invocation 5 2 w]"
  by (simp_all add: planned_def SCENARIOS_def NUM_RUNS_def TIMEOUT_SECONDS_def eval_nat_numeral)

theorem spawn_failure_aborts_run_witness:
  "check_compilation host_ok binary_lost w_init = (Return (), w_made)
   \<and> binary_lost (length (calls w_made) + 3) = NoSpawn
   \<and> NoSpawn \<notin> set (upcoming binary_lost w_made 3)
   \<and> fst (stress_main host_ok binary_lost w_init) = Raise OSError
   \<and> exit_status (fst (stress_main host_ok binary_lost w_init)) = Some 1
   \<and> map argv (calls (snd (stress_main host_ok binary_lost w_init))) =
       [[''make'', ''clean''], [''make''], [''./dining_hall'', ''2''], [''./dining_hall'', ''2''],
        [''./dining_hall'', ''2''], [''./dining_hall'', ''2'']]
   \<and> stdout (snd (stress_main host_ok binary_lost w_init)) =
       [Mark CHR ''.'', Mark CHR ''.'', Mark CHR ''.'']
   \<and> binary_missing (length (calls w_made)) = NoSpawn
   \<and> trial binary_missing 5 2 acc0 w_made =
       (Raise OSError, w_made\<lparr>calls := calls w_made @ [trial_invocation 5 2 w_made]\<rparr>)
   \<and> fst (run_stress_test binary_missing w_made) = Raise OSError
   \<and> length (calls (snd (run_stress_test binary_missing w_made))) = 3"
proof -
  have ok: "check_compilation host_ok binary_lost w_init = (Return (), w_made)"
    by (rule check_compilation_ok)
  have a: "binary_lost (length (calls w_made) + 3) = NoSpawn"
    and a0: "binary_missing (length (calls w_made)) = NoSpawn"
    and a1: "binary_missing (length (calls w_made) + 0) = NoSpawn"
    by (simp_all add: binary_lost_def binary_missing_def w_made_def)
  have b: "NoSpawn \<notin> set (upcoming binary_lost w_made 3)"
    by (simp add: upcoming_binary_lost)
  have b0: "NoSpawn \<notin> set (upcoming binary_missing w_made 0)"
    by simp
  have "binary_lost 5 \<in> set (upcoming binary_lost w_made (length SCENARIOS * NUM_RUNS))"
    unfolding upcoming_def set_map
    by (rule imageI) (simp add: w_made_def SCENARIOS_def NUM_RUNS_def)
  then have c: "NoSpawn \<in> set (upcoming binary_lost w_made (length SCENARIOS * NUM_RUNS))"
    by (simp add: binary_lost_def)
  have "binary_missing 2 \<in> set (upcoming binary_missing w_made (length SCENARIOS * NUM_RUNS))"
    unfolding upcoming_def set_map
    by (rule imageI) (simp add: w_made_def SCENARIOS_def NUM_RUNS_def)
  then have c0: "NoSpawn \<in> set (upcoming binary_missing w_made (length SCENARIOS * NUM_RUNS))"
    by (simp add: binary_missing_def)
  have j: "3 < length SCENARIOS * NUM_RUNS" and j0: "0 < length SCENARIOS * NUM_RUNS"
    by (simp_all add: SCENARIOS_def NUM_RUNS_def)
  note lost = spawn_failure_aborts_run [where orc = binary_lost and w = w_init and h = host_ok
      and ?w1.0 = w_made and j = 3]
  note missing = spawn_failure_aborts_run [where orc = binary_missing and w = w_made
      and tmo = 5 and u = 2 and acc = acc0 and j = 0]
  from lost ok c have d: "fst (stress_main host_ok binary_lost w_init) = Raise OSError"
    and e: "exit_status (fst (stress_main host_ok binary_lost w_init)) = Some 1"
    by blast+
  from lost ok j b a have f: "stress_main host_ok binary_lost w_init =
      (Raise OSError,
       w_made\<lparr>calls := calls w_made @ take (Suc 3) (planned SCENARIOS NUM_RUNS TIMEOUT_SECONDS w_made),
         stdout := stdout w_made @ map mark (upcoming binary_lost w_made 3),
         killed := killed w_made @ kills (length (calls w_made)) (upcoming binary_lost w_made 3)\<rparr>)"
    by blast
  from missing a0 have g: "trial binary_missing 5 2 acc0 w_made =
       (Raise OSError, w_made\<lparr>calls := calls w_made @ [trial_invocation 5 2 w_made]\<rparr>)"
    by blast
  from missing c0 have h: "fst (run_stress_test binary_missing w_made) = Raise OSError"
    by blast
  from missing j0 b0 a1 have i: "run_stress_test binary_missing w_made =
      (Raise OSError,
       w_made\<lparr>calls := calls w_made @ take (Suc 0) (planned SCENARIOS NUM_RUNS TIMEOUT_SECONDS w_made),
         stdout := stdout w_made @ map mark (upcoming binary_missing w_made 0),
         killed := killed w_made @ kills (length (calls w_made)) (upcoming binary_missing w_made 0)\<rparr>)"
    by blast
  have k: "map argv (calls (snd (stress_main host_ok binary_lost w_init))) =
       [[''make'', ''clean''], [''make''], [''./dining_hall'', ''2''], [''./dining_hall'', ''2''],
        [''./dining_hall'', ''2''], [''./dining_hall'', ''2'']]"
    and l: "stdout (snd (stress_main host_ok binary_lost w_init)) =
       [Mark CHR ''.'', Mark CHR ''.'', Mark CHR ''.'']"
    unfolding f first_planned upcoming_binary_lost
    by (simp_all add: w_made_def make_invocation_def trial_invocation_def str_values
        BINARY_NAME_def eval_nat_numeral)
  have m: "length (calls (snd (run_stress_test binary_missing w_made))) = 3"
    unfolding i first_planned by (simp add: w_made_def)
  from ok a b d e k l a0 g h m show ?thesis by blast
qed

section \<open>The trace driver\<close>

lemma trace_scenario_spawned:
  "orc (length (calls w)) \<noteq> NoSpawn \<Longrightarrow>
   trace_scenario orc n w =
     (Return (),
      w\<lparr>calls := calls w @ [trace_invocation n w],
        stdout := stdout w @
          Line_running n (log_filename n) # trace_report n (orc (length (calls w))),
        killed := killed w @ kills (length (calls w)) [orc (length (calls w))]\<rparr>)"
  by (cases "orc (length (calls w))")
     (auto simp: trace_scenario_def subprocess_run_def print_def trace_invocation_def
        waits_for_pipe_def)

lemma trace_scenario_no_spawn:
  "orc (length (calls w)) = NoSpawn \<Longrightarrow>
   trace_scenario orc n w =
     (Raise OSError,
      w\<lparr>calls := calls w @ [trace_invocation n w],
        stdout := stdout w @ [Line_running n (log_filename n)]\<rparr>)"
  by (simp add: trace_scenario_def subprocess_run_def print_def Let_def trace_invocation_def)

lemma trace_loop_spawned:
  "NoSpawn \<notin> set (upcoming orc w (length ns)) \<Longrightarrow>
   trace_loop orc ns w =
     (Return (),
      w\<lparr>calls := calls w @ map (\<lambda>n. trace_invocation n w) ns,
        stdout := stdout w @
          concat (map2 (\<lambda>n c. Line_running n (log_filename n) # trace_report n c)
                    ns (upcoming orc w (length ns))),
        killed := killed w @ kills (length (calls w)) (upcoming orc w (length ns))\<rparr>)"
proof (induction ns arbitrary: w)
  case Nil
  then show ?case by simp
next
  case (Cons n ns)
  let ?c = "orc (length (calls w))"
  let ?w = "w\<lparr>calls := calls w @ [trace_invocation n w],
              stdout := stdout w @ Line_running n (log_filename n) # trace_report n ?c,
              killed := killed w @ kills (length (calls w)) [?c]\<rparr>"
  have up: "upcoming orc w (Suc (length ns)) = ?c # upcoming orc ?w (length ns)"
    by (rule upcoming_Suc) simp
  from Cons.prems up have c: "?c \<noteq> NoSpawn"
    and rest: "NoSpawn \<notin> set (upcoming orc ?w (length ns))"
    by auto
  have step: "trace_scenario orc n w = (Return (), ?w)"
    using c by (rule trace_scenario_spawned [of orc w])
  have inv: "trace_invocation m ?w = trace_invocation m w" for m
    by (simp add: trace_invocation_def)
  show ?case
    by (simp add: step bind_py_def Cons.IH [OF rest] up inv kills_first del: kills.simps)
qed

lemma trace_loop_calls:
  "\<exists>k\<le>length ns.
     calls (snd (trace_loop orc ns w)) = calls w @ map (\<lambda>n. trace_invocation n w) (take k ns)
     \<and> environ (snd (trace_loop orc ns w)) = environ w"
proof (induction ns arbitrary: w)
  case Nil
  then show ?case by simp
next
  case (Cons n ns)
  let ?c = "orc (length (calls w))"
  show ?case
  proof (cases "?c = NoSpawn")
    case True
    then have "calls (snd (trace_loop orc (n # ns) w)) =
          calls w @ map (\<lambda>n. trace_invocation n w) (take 1 (n # ns))
        \<and> environ (snd (trace_loop orc (n # ns) w)) = environ w"
      by (simp add: trace_scenario_no_spawn bind_py_def)
    then show ?thesis by (intro exI [of _ 1]) simp
  next
    case False
    let ?w = "w\<lparr>calls := calls w @ [trace_invocation n w],
                stdout := stdout w @ Line_running n (log_filename n) # trace_report n ?c,
                killed := killed w @ kills (length (calls w)) [?c]\<rparr>"
    have step: "trace_scenario orc n w = (Return (), ?w)"
      using False by (rule trace_scenario_spawned [of orc w])
    have inv: "trace_invocation m ?w = trace_invocation m w" for m
      by (simp add: trace_invocation_def)
    from Cons.IH [of ?w] obtain k where k: "k \<le> length ns"
      and c: "calls (snd (trace_loop orc ns ?w)) =
          calls ?w @ map (\<lambda>n. trace_invocation n ?w) (take k ns)"
      and e: "environ (snd (trace_loop orc ns ?w)) = environ ?w"
      by blast
    have "calls (snd (trace_loop orc (n # ns) w)) =
          calls w @ map (\<lambda>n. trace_invocation n w) (take (Suc k) (n # ns))
        \<and> environ (snd (trace_loop orc (n # ns) w)) = environ w"
      using c e by (simp add: step bind_py_def inv del: kills.simps)
    with k show ?thesis by (intro exI [of _ "Suc k"]) simp
  qed
qed

lemma generate_traces_calls:
  "\<exists>k\<le>3. calls (snd (generate_traces orc w)) =
       calls w @ map (\<lambda>n. trace_invocation n w) (take k [2, 3, 10])
     \<and> environ (snd (generate_traces orc w)) = environ w"
proof -
  let ?w = "print Line_generating w"
  have inv: "(\<lambda>n. trace_invocation n ?w) = (\<lambda>n. trace_invocation n w)"
    by (simp add: trace_invocation_def print_def)
  have cw: "calls ?w = calls w" "environ ?w = environ w"
    by (simp_all add: print_def)
  from trace_loop_calls [of SCENARIOS_trace orc ?w] obtain k
    where k: "k \<le> length SCENARIOS_trace"
    and c: "calls (snd (trace_loop orc SCENARIOS_trace ?w)) =
        calls ?w @ map (\<lambda>n. trace_invocation n ?w) (take k SCENARIOS_trace)"
    and e: "environ (snd (trace_loop orc SCENARIOS_trace ?w)) = environ ?w"
    by blast
  obtain r w1 where r: "trace_loop orc SCENARIOS_trace ?w = (r, w1)"
    by (cases "trace_loop orc SCENARIOS_trace ?w")
  have g: "calls (snd (generate_traces orc w)) = calls w1
      \<and> environ (snd (generate_traces orc w)) = environ w1"
    using r by (cases r) (simp_all add: generate_traces_def bind_py_def print_def)
  from c e r have "calls w1 = calls w @ map (\<lambda>n. trace_invocation n w) (take k SCENARIOS_trace)"
    and "environ w1 = environ w"
    by (simp_all add: inv cw)
  with g k show ?thesis
    unfolding SCENARIOS_trace_def by (intro exI [of _ k]) simp
qed

lemma generate_traces_spawned:
  assumes "NoSpawn \<notin> set (upcoming orc w 3)"
  shows "generate_traces orc w =
     (Return (),
      w\<lparr>calls := calls w @ map (\<lambda>n. trace_invocation n w) [2, 3, 10],
        stdout := stdout w @ Line_generating #
          concat (map2 (\<lambda>n c. Line_running n (log_filename n) # trace_report n c)
                    [2, 3, 10] (upcoming orc w 3)) @ [Line_done],
        killed := killed w @ kills (length (calls w)) (upcoming orc w 3)\<rparr>)"
proof -
  let ?w = "print Line_generating w"
  have up: "upcoming orc ?w n = upcoming orc w n" for n
    by (simp add: upcoming_def print_def)
  have inv: "trace_invocation m ?w = trace_invocation m w" for m
    by (simp add: trace_invocation_def print_def)
  have len: "length SCENARIOS_trace = 3"
    by (simp add: SCENARIOS_trace_def)
  have "NoSpawn \<notin> set (upcoming orc ?w (length SCENARIOS_trace))"
    unfolding len using assms by (simp add: up)
  note trace_loop_spawned [OF this, unfolded len up]
  then show ?thesis
    by (simp add: generate_traces_def bind_py_def inv)
       (simp add: print_def SCENARIOS_trace_def)
qed

subsection \<open>The decimal numeral of an integer determines it\<close>

lemma digits_below_ten:
  "\<forall>n<10. digit_value (''0123456789'' ! n) = n \<and> ''0123456789'' ! n \<noteq> CHR ''-''"
  by (simp add: digit_value_def eval_nat_numeral All_less_Suc)

lemma digit_value_nth: "n < 10 \<Longrightarrow> digit_value (''0123456789'' ! n) = n"
  using digits_below_ten by blast

lemma digit_nth_not_minus: "n < 10 \<Longrightarrow> ''0123456789'' ! n \<noteq> CHR ''-''"
  using digits_below_ten by blast

lemma digits_value_snoc: "digits_value (s @ [c]) = 10 * digits_value s + digit_value c"
  by (simp add: digits_value_def)

lemma digits_value_str_nat: "digits_value (str_nat n) = n"
proof (induction n rule: str_nat.induct)
  case (1 n)
  show ?case
  proof (cases "n < 10")
    case True
    then show ?thesis
      by (simp add: str_nat.simps [of n] digit_value_nth digits_value_def)
  next
    case False
    with 1 have "digits_value (str_nat (n div 10)) = n div 10" by simp
    with False show ?thesis
      by (simp add: str_nat.simps [of n] digits_value_snoc digit_value_nth)
  qed
qed

lemma str_nat_no_minus: "CHR ''-'' \<notin> set (str_nat n)"
proof (induction n rule: str_nat.induct)
  case (1 n)
  show ?case
  proof (cases "n < 10")
    case True
    then show ?thesis
      using digit_nth_not_minus [of n] by (auto simp: str_nat.simps [of n])
  next
    case False
    with 1 have "CHR ''-'' \<notin> set (str_nat (n div 10))" by simp
    with False show ?thesis
      using digit_nth_not_minus [of "n mod 10"] by (auto simp: str_nat.simps [of n])
  qed
qed

lemma str_nat_inject:
  assumes "str_nat n = str_nat m"
  shows "n = m"
proof -
  have "n = digits_value (str_nat n)" by (simp only: digits_value_str_nat)
  also have "\<dots> = digits_value (str_nat m)" by (simp only: assms)
  also have "\<dots> = m" by (rule digits_value_str_nat)
  finally show ?thesis .
qed

lemma str_inject:
  assumes "str i = str j"
  shows "i = j"
proof -
  have neq: "CHR ''-'' # str_nat a \<noteq> str_nat b" for a b
    using str_nat_no_minus [of b] by (metis list.set_intros(1))
  show ?thesis
  proof (cases "i < 0")
    case i: True
    show ?thesis
    proof (cases "j < 0")
      case True
      with i assms have "str_nat (nat (- i)) = str_nat (nat (- j))" by (simp add: str_def)
      then have "nat (- i) = nat (- j)" by (rule str_nat_inject)
      with i True show ?thesis by simp
    next
      case False
      with i assms neq show ?thesis by (simp add: str_def)
    qed
  next
    case i: False
    show ?thesis
    proof (cases "j < 0")
      case True
      with i assms neq [of "nat (- j)" "nat i"] show ?thesis by (simp add: str_def)
    next
      case False
      with i assms have "str_nat (nat i) = str_nat (nat j)" by (simp add: str_def)
      then have "nat i = nat j" by (rule str_nat_inject)
      with i False show ?thesis by simp
    qed
  qed
qed

lemma log_filename_eq: "log_filename n = ''trace_logs/trace_'' @ str n @ ''_students.txt''"
  by (simp add: log_filename_def os_path_join_def OUTPUT_DIR_def)

lemma log_filename_inject: "log_filename n = log_filename m \<Longrightarrow> n = m"
  by (simp add: log_filename_eq str_inject)

lemma log_filename_values:
  "log_filename 2 = ''trace_logs/trace_2_students.txt''"
  "log_filename 3 = ''trace_logs/trace_3_students.txt''"
  "log_filename 10 = ''trace_logs/trace_10_students.txt''"
  by (simp_all add: log_filename_eq str_values)

subsection \<open>The invocations of the trace driver\<close>

text \<open>
  C8, as claimed, fails: a degree need not be invoked at all. When the child of degree 3
  cannot be started the exception leaves the loop, and degree 10 is never invoked.
\<close>

theorem trace_degree_never_invoked:
  "fst (generate_traces second_missing w_init) = Raise OSError
   \<and> map argv (calls (snd (generate_traces second_missing w_init))) =
       [[''./dining_hall_logged'', ''2''], [''./dining_hall_logged'', ''3'']]
   \<and> trace_invocation 10 w_init \<notin> set (calls (snd (generate_traces second_missing w_init)))"
proof -
  have "generate_traces second_missing w_init =
      (Raise OSError,
       w_init\<lparr>calls := [trace_invocation 2 w_init, trace_invocation 3 w_init],
         stdout := [Line_generating, Line_running 2 (log_filename 2),
                    Line_running 3 (log_filename 3)]\<rparr>)"
    by (simp add: generate_traces_def SCENARIOS_trace_def bind_py_def trace_scenario_def
        subprocess_run_def second_missing_def print_def w_init_def trace_invocation_def Let_def
        waits_for_pipe_def)
  then show ?thesis
    by (simp add: trace_invocation_def BINARY_NAME_logged_def str_values)
qed

text \<open>
  C8, amended. The trace driver calls the binary at most once per degree, in the order
  2, 3, 10, and exactly once for each when every child can be started. The call of a
  degree carries the path \<^verbatim>\<open>trace_logs/trace_<degree>_students.txt\<close> under the name
  \<^verbatim>\<open>DINING_LOG_FILE\<close> in the environment handed to that child; the path is a function of
  the degree alone, different degrees have different paths, and \<^verbatim>\<open>os.environ\<close> of the
  driver is the same after the run as before.
\<close>

theorem trace_invocations:
  "(\<exists>k\<le>3. calls (snd (generate_traces orc w)) =
        calls w @ map (\<lambda>n. trace_invocation n w) (take k [2, 3, 10]))
   \<and> environ (snd (generate_traces orc w)) = environ w
   \<and> (NoSpawn \<notin> set (upcoming orc w 3) \<longrightarrow>
      calls (snd (generate_traces orc w)) = calls w @
       [\<lparr>argv = [''./dining_hall_logged'', ''2''],
         child_env =
           AList.update ''DINING_LOG_FILE'' ''trace_logs/trace_2_students.txt'' (environ w),
         timeout = Some 10, check = True, stdout_to = Inherit, stderr_to = Inherit\<rparr>,
        \<lparr>argv = [''./dining_hall_logged'', ''3''],
         child_env =
           AList.update ''DINING_LOG_FILE'' ''trace_logs/trace_3_students.txt'' (environ w),
         timeout = Some 10, check = True, stdout_to = Inherit, stderr_to = Inherit\<rparr>,
        \<lparr>argv = [''./dining_hall_logged'', ''10''],
         child_env =
           AList.update ''DINING_LOG_FILE'' ''trace_logs/trace_10_students.txt'' (environ w),
         timeout = Some 10, check = True, stdout_to = Inherit, stderr_to = Inherit\<rparr>])
   \<and> (\<forall>n. map_of (child_env (trace_invocation n w)) ''DINING_LOG_FILE'' = Some (log_filename n))
   \<and> (\<forall>n m. log_filename n = log_filename m \<longrightarrow> n = m)"
proof -
  have "map_of (child_env (trace_invocation n w)) ''DINING_LOG_FILE'' = Some (log_filename n)"
    for n
    by (simp add: trace_invocation_def update_conv')
  moreover have "\<forall>n m. log_filename n = log_filename m \<longrightarrow> n = m"
    by (blast dest: log_filename_inject)
  moreover have "calls (snd (generate_traces orc w)) = calls w @
       [\<lparr>argv = [''./dining_hall_logged'', ''2''],
         child_env =
           AList.update ''DINING_LOG_FILE'' ''trace_logs/trace_2_students.txt'' (environ w),
         timeout = Some 10, check = True, stdout_to = Inherit, stderr_to = Inherit\<rparr>,
        \<lparr>argv = [''./dining_hall_logged'', ''3''],
         child_env =
           AList.update ''DINING_LOG_FILE'' ''trace_logs/trace_3_students.txt'' (environ w),
         timeout = Some 10, check = True, stdout_to = Inherit, stderr_to = Inherit\<rparr>,
        \<lparr>argv = [''./dining_hall_logged'', ''10''],
         child_env =
           AList.update ''DINING_LOG_FILE'' ''trace_logs/trace_10_students.txt'' (environ w),
         timeout = Some 10, check = True, stdout_to = Inherit, stderr_to = Inherit\<rparr>]"
    if "NoSpawn \<notin> set (upcoming orc w 3)"
    by (simp add: generate_traces_spawned [OF that] trace_invocation_def BINARY_NAME_logged_def
        str_values log_filename_values)
  ultimately show ?thesis
    using generate_traces_calls [of orc w] by blast
qed

theorem trace_invocations_witness:
  "NoSpawn \<notin> set (upcoming always_ok w_env 3)
   \<and> map child_env (calls (snd (generate_traces always_ok w_env))) =
       [[(''PATH'', ''/usr/bin''), (''DINING_LOG_FILE'', ''trace_logs/trace_2_students.txt'')],
        [(''PATH'', ''/usr/bin''), (''DINING_LOG_FILE'', ''trace_logs/trace_3_students.txt'')],
        [(''PATH'', ''/usr/bin''), (''DINING_LOG_FILE'', ''trace_logs/trace_10_students.txt'')]]
   \<and> map argv (calls (snd (generate_traces always_ok w_env))) =
       [[''./dining_hall_logged'', ''2''], [''./dining_hall_logged'', ''3''],
        [''./dining_hall_logged'', ''10'']]
   \<and> environ (snd (generate_traces always_ok w_env)) =
       [(''PATH'', ''/usr/bin''), (''DINING_LOG_FILE'', ''old.txt'')]"
proof -
  have "NoSpawn \<notin> set (upcoming always_ok w_env 3)"
    by (simp add: upcoming_always_ok)
  with trace_invocations [of always_ok w_env] show ?thesis
    by (simp add: w_env_def)
qed

subsection \<open>The exit status of the trace driver\<close>

lemma setup_traces_status:
  assumes "outdir_exists h \<or> makedirs_ok h"
    and "orc (length (calls w)) = Exits rc d out_held err_held"
  shows "setup_traces h orc w =
     (if rc = 0 then (Return (), w\<lparr>calls := calls w @ [gcc_invocation w],
                                  stdout := stdout w @ [Line_preparing]\<rparr>)
      else (SysExit 1, w\<lparr>calls := calls w @ [gcc_invocation w],
                         stdout := stdout w @ [Line_preparing, Line_compile_error]\<rparr>))"
  using assms
  by (auto simp: setup_traces_def subprocess_run_def print_def gcc_invocation_def bind_py_def
      Let_def waits_for_pipe_def)

text \<open>
  C5, as claimed, fails: the entry point runs \<open>setup_traces\<close> first, and when the compiler
  ends with a nonzero status the script leaves through \<^verbatim>\<open>sys.exit(1)\<close> before any
  scenario is run.
\<close>

theorem trace_driver_compile_failure:
  "fst (setup_traces host_ok compiler_fails w_init) = SysExit 1
   \<and> exit_status (fst (trace_main host_ok compiler_fails w_init)) = Some 1"
  by (simp add: trace_main_def setup_traces_def bind_py_def subprocess_run_def host_ok_def
      w_init_def print_def gcc_invocation_def compiler_fails_def Let_def waits_for_pipe_def)

text \<open>
  C5, amended. When the setup has succeeded and every scenario's child can be started,
  the trace driver ends with exit status 0 whatever the children do: it runs all three
  scenarios in order, prints a line for a child that hangs and a line for a child that
  ends with a nonzero status, and goes on with the next scenario. The setup succeeds when
  the output directory is available and the compiler ends with status 0. When the
  directory is available and the compiler ends with any other status, the script ends
  with exit status 1, and the call of the compiler is the only one it has made: no
  scenario is run.
\<close>

theorem trace_driver_exit_status:
  "(setup_traces h orc w = (Return (), w1) \<and> NoSpawn \<notin> set (upcoming orc w1 3) \<longrightarrow>
      exit_status (fst (trace_main h orc w)) = Some 0
    \<and> calls (snd (trace_main h orc w)) = calls w1 @ map (\<lambda>n. trace_invocation n w1) [2, 3, 10]
    \<and> stdout (snd (trace_main h orc w)) =
        stdout w1 @ Line_generating #
          concat (map2 (\<lambda>n c. Line_running n (log_filename n) # trace_report n c)
                    [2, 3, 10] (upcoming orc w1 3)) @ [Line_done])
   \<and> ((outdir_exists h \<or> makedirs_ok h)
      \<and> orc (length (calls w)) = Exits 0 d out_held err_held \<longrightarrow>
      setup_traces h orc w =
        (Return (), w\<lparr>calls := calls w @ [gcc_invocation w],
                      stdout := stdout w @ [Line_preparing]\<rparr>))
   \<and> ((outdir_exists h \<or> makedirs_ok h)
      \<and> orc (length (calls w)) = Exits rc d out_held err_held \<and> rc \<noteq> 0 \<longrightarrow>
      trace_main h orc w =
        (SysExit 1, w\<lparr>calls := calls w @ [gcc_invocation w],
                      stdout := stdout w @ [Line_preparing, Line_compile_error]\<rparr>)
    \<and> exit_status (fst (trace_main h orc w)) = Some 1)"
proof -
  have ok: "exit_status (fst (trace_main h orc w)) = Some 0
    \<and> calls (snd (trace_main h orc w)) = calls w1 @ map (\<lambda>n. trace_invocation n w1) [2, 3, 10]
    \<and> stdout (snd (trace_main h orc w)) =
        stdout w1 @ Line_generating #
          concat (map2 (\<lambda>n c. Line_running n (log_filename n) # trace_report n c)
                    [2, 3, 10] (upcoming orc w1 3)) @ [Line_done]"
    if "setup_traces h orc w = (Return (), w1)" and "NoSpawn \<notin> set (upcoming orc w1 3)"
    by (simp add: trace_main_def that(1) bind_py_def generate_traces_spawned [OF that(2)])
  have compiled: "setup_traces h orc w =
        (Return (), w\<lparr>calls := calls w @ [gcc_invocation w],
                      stdout := stdout w @ [Line_preparing]\<rparr>)"
    if "outdir_exists h \<or> makedirs_ok h"
      and "orc (length (calls w)) = Exits 0 d out_held err_held"
    using setup_traces_status [of h orc w 0 d out_held err_held] that by simp
  have failed: "trace_main h orc w =
        (SysExit 1, w\<lparr>calls := calls w @ [gcc_invocation w],
                      stdout := stdout w @ [Line_preparing, Line_compile_error]\<rparr>)
    \<and> exit_status (fst (trace_main h orc w)) = Some 1"
    if "outdir_exists h \<or> makedirs_ok h"
      and "orc (length (calls w)) = Exits rc d out_held err_held" and "rc \<noteq> 0"
    using setup_traces_status [of h orc w rc d out_held err_held] that
    by (simp add: trace_main_def bind_py_def)
  from ok compiled failed show ?thesis by blast
qed

lemma setup_traces_ok: "setup_traces host_ok trace_mixed w_init = (Return (), w_compiled)"
  by (simp add: setup_traces_def host_ok_def subprocess_run_def trace_mixed_def w_init_def
      w_compiled_def gcc_invocation_def print_def bind_py_def Let_def waits_for_pipe_def)

lemma upcoming_trace_mixed:
  "upcoming trace_mixed w_compiled 3 =
     [Exits 0 (Finite (1 / 4)) False False, Hangs, Exits 1 (Finite (1 / 2)) False False]"
  by (simp add: upcoming_def w_compiled_def trace_mixed_def upt_conv_Cons)

theorem trace_driver_exit_status_witness:
  "setup_traces host_ok trace_mixed w_init = (Return (), w_compiled)
   \<and> upcoming trace_mixed w_compiled 3 =
       [Exits 0 (Finite (1 / 4)) False False, Hangs, Exits 1 (Finite (1 / 2)) False False]
   \<and> exit_status (fst (trace_main host_ok trace_mixed w_init)) = Some 0
   \<and> length (calls (snd (trace_main host_ok trace_mixed w_init))) = 4
   \<and> stdout (snd (trace_main host_ok trace_mixed w_init)) =
       [Line_preparing, Line_generating,
        Line_running 2 ''trace_logs/trace_2_students.txt'',
        Line_running 3 ''trace_logs/trace_3_students.txt'', Line_timeout 3,
        Line_running 10 ''trace_logs/trace_10_students.txt'', Line_exec_error 10,
        Line_done]
   \<and> outdir_exists host_ok
   \<and> trace_mixed (length (calls w_init)) = Exits 0 (Finite 2) False False
   \<and> compiler_fails (length (calls w_init)) = Exits 1 (Finite 0) False False
   \<and> trace_main host_ok compiler_fails w_init =
       (SysExit 1, w_init\<lparr>calls := [gcc_invocation w_init],
                          stdout := [Line_preparing, Line_compile_error]\<rparr>)
   \<and> exit_status (fst (trace_main host_ok compiler_fails w_init)) = Some 1"
proof -
  have ns: "NoSpawn \<notin> set (upcoming trace_mixed w_compiled 3)"
    by (simp add: upcoming_trace_mixed)
  have dir: "outdir_exists host_ok \<or> makedirs_ok host_ok" and dir': "outdir_exists host_ok"
    by (simp_all add: host_ok_def)
  have gcc: "trace_mixed (length (calls w_init)) = Exits 0 (Finite 2) False False"
    and bad: "compiler_fails (length (calls w_init)) = Exits 1 (Finite 0) False False"
    by (simp_all add: trace_mixed_def compiler_fails_def w_init_def)
  have made: "w_init\<lparr>calls := calls w_init @ [gcc_invocation w_init],
        stdout := stdout w_init @ [Line_preparing]\<rparr> = w_compiled"
    by (simp add: w_init_def w_compiled_def)
  note good = trace_driver_exit_status [where h = host_ok and orc = trace_mixed and w = w_init
      and ?w1.0 = w_compiled and d = "Finite 2" and out_held = False and err_held = False]
  note fail = trace_driver_exit_status [where h = host_ok and orc = compiler_fails and w = w_init
      and rc = 1 and d = "Finite 0" and out_held = False and err_held = False]
  from good dir gcc have a: "setup_traces host_ok trace_mixed w_init = (Return (), w_compiled)"
    unfolding made by blast
  from good a ns have b: "exit_status (fst (trace_main host_ok trace_mixed w_init)) = Some 0"
    and c: "calls (snd (trace_main host_ok trace_mixed w_init)) =
        calls w_compiled @ map (\<lambda>n. trace_invocation n w_compiled) [2, 3, 10]"
    and e: "stdout (snd (trace_main host_ok trace_mixed w_init)) =
        stdout w_compiled @ Line_generating #
          concat (map2 (\<lambda>n c. Line_running n (log_filename n) # trace_report n c)
                    [2, 3, 10] (upcoming trace_mixed w_compiled 3)) @ [Line_done]"
    by blast+
  have one: "(1::int) \<noteq> 0" by simp
  from fail dir bad one have f: "trace_main host_ok compiler_fails w_init =
       (SysExit 1, w_init\<lparr>calls := calls w_init @ [gcc_invocation w_init],
                          stdout := stdout w_init @ [Line_preparing, Line_compile_error]\<rparr>)"
    and g: "exit_status (fst (trace_main host_ok compiler_fails w_init)) = Some 1"
    by blast+
  have c': "length (calls (snd (trace_main host_ok trace_mixed w_init))) = 4"
    unfolding c by (simp add: w_compiled_def)
  have e': "stdout (snd (trace_main host_ok trace_mixed w_init)) =
       [Line_preparing, Line_generating,
        Line_running 2 ''trace_logs/trace_2_students.txt'',
        Line_running 3 ''trace_logs/trace_3_students.txt'', Line_timeout 3,
        Line_running 10 ''trace_logs/trace_10_students.txt'', Line_exec_error 10,
        Line_done]"
    unfolding e upcoming_trace_mixed by (simp add: log_filename_values w_compiled_def)
  have f': "trace_main host_ok compiler_fails w_init =
       (SysExit 1, w_init\<lparr>calls := [gcc_invocation w_init],
                          stdout := [Line_preparing, Line_compile_error]\<rparr>)"
    unfolding f by (simp add: w_init_def)
  from a upcoming_trace_mixed b c' e' dir' gcc bad f' g show ?thesis by blast
qed

end
